theory Spec2Isabelle
  imports Complex_Main
begin

section \<open>Data model (index.ts, interfaces Subtask, Task, RequestEntry, TaskManagerFile)\<close>

text \<open>
  The task manager keeps one document: a list of requests, each owning an ordered list of
  tasks, each task optionally owning a list of subtasks. Optional fields of the
  TypeScript interfaces are \<open>option\<close> values here. A string is a list of code units,
  and a code unit is a \<open>char\<close>: the 256 code units U+0000 to U+00FF (Latin-1). On
  these the string primitives below are the JavaScript ones; strings with a code unit
  above U+00FF are not values of the model.
\<close>

datatype status = Pending | InProgress | Completed | Cancelled

record Subtask =
  subtask_id :: string
  content :: string
  status :: status
  createdAt :: string
  completedAt :: "string option"

record Task =
  task_id :: string
  title :: string
  description :: string
  task_done :: bool
  approved :: bool
  completedDetails :: string
  subtasks :: "Subtask list option"
  completionPercentage :: "int option"

record RequestEntry =
  requestId :: string
  originalRequest :: string
  splitDetails :: string
  tasks :: "Task list"
  completed :: bool

text \<open>
  The class TaskManagerServer: two counters and the document. The persisted file holds
  the document between calls (every mutating operation ends with saveTasks, every
  operation starts with loadTasks), so reading the file back is the identity on
  \<open>data\<close>; an absent file is the empty document.
\<close>

record Server =
  requestCounter :: int
  taskCounter :: int
  data :: "RequestEntry list"

definition init_server :: Server where
  "init_server = \<lparr>requestCounter = 0, taskCounter = 0, data = []\<rparr>"

section \<open>JavaScript string and number primitives\<close>

definition isDigit :: "char \<Rightarrow> bool" where
  "isDigit c = (48 \<le> (of_char c :: nat) \<and> (of_char c :: nat) \<le> 57)"

definition digitVal :: "char \<Rightarrow> int" where
  "digitVal c = int (of_char c) - 48"

text \<open>
  White space and line terminators of ECMAScript among the code units up to U+00FF: tab,
  line feed, vertical tab, form feed, carriage return, space and the no-break space
  U+00A0. (U+0085 and U+001C to U+001F are not white space in JavaScript.)
\<close>

definition isWhitespace :: "char \<Rightarrow> bool" where
  "isWhitespace c = ((of_char c :: nat) \<in> {9, 10, 11, 12, 13, 32, 160})"

text \<open>String.prototype.trim\<close>

definition trim :: "string \<Rightarrow> string" where
  "trim s = rev (dropWhile isWhitespace (rev (dropWhile isWhitespace s)))"

text \<open>
  String.prototype.toLowerCase. The code units up to U+00FF that have a lower-case form
  other than themselves are A to Z and U+00C0 to U+00DE without the multiplication sign
  U+00D7; each maps to the code unit 32 above it.
\<close>

definition lowerChar :: "char \<Rightarrow> char" where
  "lowerChar c =
     (if (65 \<le> (of_char c :: nat) \<and> (of_char c :: nat) \<le> 90)
         \<or> (192 \<le> (of_char c :: nat) \<and> (of_char c :: nat) \<le> 222 \<and> (of_char c :: nat) \<noteq> 215)
      then char_of ((of_char c :: nat) + 32) else c)"

definition toLowerCase :: "string \<Rightarrow> string" where
  "toLowerCase s = map lowerChar s"

text \<open>
  \<open>truthy\<close> is the JavaScript test \<open>if (s)\<close> on an optional string: undefined and the
  empty string are falsy.
\<close>

definition truthy :: "string option \<Rightarrow> bool" where
  "truthy s = (case s of None \<Rightarrow> False | Some v \<Rightarrow> v \<noteq> [])"

text \<open>
  \<open>split_first sep s\<close> cuts \<open>s\<close> at the first occurrence of \<open>sep\<close> and returns what
  stands before and after it; it is the common core of \<open>replace\<close> and \<open>split\<close> with a
  string pattern.
\<close>

fun split_first :: "string \<Rightarrow> string \<Rightarrow> (string \<times> string) option" where
  "split_first sep [] = (if sep = [] then Some ([], []) else None)"
| "split_first sep (c # cs) =
     (if take (length sep) (c # cs) = sep then Some ([], drop (length sep) (c # cs))
      else (case split_first sep cs of
              None \<Rightarrow> None
            | Some (b, a) \<Rightarrow> Some (c # b, a)))"

text \<open>\<open>s.replace(pat, "")\<close>: the first occurrence of \<open>pat\<close> is removed.\<close>

definition replace_first_empty :: "string \<Rightarrow> string \<Rightarrow> string" where
  "replace_first_empty pat s =
     (case split_first pat s of None \<Rightarrow> s | Some (b, a) \<Rightarrow> b @ a)"

text \<open>\<open>s.split(sep)[1]\<close>: the second piece, undefined when \<open>sep\<close> does not occur.\<close>

definition split_second :: "string \<Rightarrow> string \<Rightarrow> string option" where
  "split_second sep s =
     (case split_first sep s of
        None \<Rightarrow> None
      | Some (b, a) \<Rightarrow>
          (case split_first sep a of None \<Rightarrow> Some a | Some (b2, a2) \<Rightarrow> Some b2))"

text \<open>
  \<open>parseInt(s, 10)\<close>: leading white space and one sign are skipped, the longest run of
  digits is read, and the result is NaN (\<open>None\<close>) when there is no digit.
\<close>

definition digitsVal :: "string \<Rightarrow> int" where
  "digitsVal ds = foldl (\<lambda>a c. 10 * a + digitVal c) 0 ds"

definition parseInt :: "string \<Rightarrow> int option" where
  "parseInt s =
     (let s1 = dropWhile isWhitespace s;
          neg = (s1 \<noteq> [] \<and> hd s1 = CHR ''-'');
          s2 = (if s1 \<noteq> [] \<and> (hd s1 = CHR ''-'' \<or> hd s1 = CHR ''+'') then tl s1 else s1);
          ds = takeWhile isDigit s2
      in if ds = [] then None
         else Some (if neg then - digitsVal ds else digitsVal ds))"

text \<open>
  \<open>parseInt(s)\<close> with no radix: as above, except that after the sign a prefix \<open>0x\<close> or
  \<open>0X\<close> makes the digits hexadecimal.
\<close>

definition isHexDigit :: "char \<Rightarrow> bool" where
  "isHexDigit c =
     (isDigit c \<or> (97 \<le> (of_char c :: nat) \<and> (of_char c :: nat) \<le> 102)
      \<or> (65 \<le> (of_char c :: nat) \<and> (of_char c :: nat) \<le> 70))"

definition hexVal :: "char \<Rightarrow> int" where
  "hexVal c =
     (if isDigit c then digitVal c
      else if 97 \<le> (of_char c :: nat) then int (of_char c) - 87
      else int (of_char c) - 55)"

definition hex_prefixed :: "string \<Rightarrow> bool" where
  "hex_prefixed s = (take 2 s = ''0x'' \<or> take 2 s = ''0X'')"

definition parseInt_auto :: "string \<Rightarrow> int option" where
  "parseInt_auto s =
     (let s1 = dropWhile isWhitespace s;
          neg = (s1 \<noteq> [] \<and> hd s1 = CHR ''-'');
          s2 = (if s1 \<noteq> [] \<and> (hd s1 = CHR ''-'' \<or> hd s1 = CHR ''+'') then tl s1 else s1)
      in if hex_prefixed s2
         then (let ds = takeWhile isHexDigit (drop 2 s2);
                   v = foldl (\<lambda>a c. 16 * a + hexVal c) 0 ds
               in if ds = [] then None else Some (if neg then - v else v))
         else parseInt s)"

text \<open>\<open>parseInt(x) || 0\<close> where \<open>x\<close> may be undefined: NaN and 0 both give 0.\<close>

definition parseInt_or0 :: "string option \<Rightarrow> int" where
  "parseInt_or0 x =
     (case x of None \<Rightarrow> 0 | Some s \<Rightarrow> (case parseInt_auto s of None \<Rightarrow> 0 | Some n \<Rightarrow> n))"

text \<open>
  The regular expressions \<open>/-task-(\d+)$/\<close> and \<open>/-subtask-(\d+)$/\<close>: the string ends with
  the key followed by one or more digits; the digits are the capture. Since the key ends
  with a character that is no digit, the capture is the longest run of digits at the end.
\<close>

definition match_tail_number :: "string \<Rightarrow> string \<Rightarrow> string option" where
  "match_tail_number key s =
     (let ds = rev (takeWhile isDigit (rev s));
          pre = take (length s - length ds) s
      in if ds \<noteq> [] \<and> length key \<le> length pre \<and> drop (length pre - length key) pre = key
         then Some ds else None)"

text \<open>Template-literal formatting of an integer, \<open>`${n}`\<close>.\<close>

definition digitChar :: "nat \<Rightarrow> char" where
  "digitChar d = char_of (48 + d)"

fun show_nat :: "nat \<Rightarrow> string" where
  "show_nat n = (if n < 10 then [digitChar n] else show_nat (n div 10) @ [digitChar (n mod 10)])"

declare show_nat.simps [simp del]

definition show_int :: "int \<Rightarrow> string" where
  "show_int n = (if n < 0 then CHR ''-'' # show_nat (nat (- n)) else show_nat (nat n))"

text \<open>\<open>Math.max(...xs)\<close> on a non-empty list.\<close>

definition Math_max :: "int list \<Rightarrow> int" where
  "Math_max xs = foldl max (hd xs) (tl xs)"

text \<open>\<open>Array.prototype.findIndex\<close>; \<open>None\<close> stands for -1.\<close>

fun findIndex :: "('a \<Rightarrow> bool) \<Rightarrow> 'a list \<Rightarrow> nat option" where
  "findIndex P [] = None"
| "findIndex P (x # xs) = (if P x then Some 0 else map_option Suc (findIndex P xs))"

subsection \<open>Double-precision arithmetic\<close>

text \<open>
  JavaScript numbers are IEEE 754 doubles. \<open>fl x\<close> is the double nearest to the rational
  \<open>x\<close> (53 significant bits, ties to the even significand), for \<open>x\<close> in the range of
  normal numbers, which is where the percentages live. Division and multiplication are
  the exact operation followed by \<open>fl\<close>. \<open>Math.round\<close> returns the nearest integer, ties
  towards plus infinity.
\<close>

function ilog2 :: "int \<Rightarrow> int" where
  "ilog2 n = (if n < 2 then 0 else 1 + ilog2 (n div 2))"
  by pat_completeness auto
termination
  by (relation "measure nat") auto

declare ilog2.simps [simp del]

definition expo :: "rat \<Rightarrow> int" where
  "expo x =
     (let (p, q) = quotient_of \<bar>x\<bar>;
          e0 = ilog2 p - ilog2 q
      in if 2 powi e0 \<le> \<bar>x\<bar> then e0 else e0 - 1)"

definition round_half_even :: "rat \<Rightarrow> int" where
  "round_half_even q =
     (let n = \<lfloor>q\<rfloor>; r = q - of_int n
      in if r < 1 / 2 then n
         else if 1 / 2 < r then n + 1
         else if even n then n else n + 1)"

definition fl :: "rat \<Rightarrow> rat" where
  "fl x =
     (if x = 0 then 0
      else let u = 2 powi (expo x - 52)
           in of_int (round_half_even (x / u)) * u)"

definition js_div :: "rat \<Rightarrow> rat \<Rightarrow> rat" where
  "js_div a b = fl (a / b)"

definition js_mul :: "rat \<Rightarrow> rat \<Rightarrow> rat" where
  "js_mul a b = fl (a * b)"

definition Math_round :: "rat \<Rightarrow> int" where
  "Math_round x = \<lfloor>x + 1 / 2\<rfloor>"


section \<open>Validation rules and derived values\<close>

text \<open>
  calculateCompletionPercentage:
  \<^verbatim>\<open>Math.round((completedCount / subtasks.length) * 100)\<close>, and 0 for an empty list.
\<close>

definition completedCount :: "Subtask list \<Rightarrow> nat" where
  "completedCount sts = length (filter (\<lambda>st. status st = Completed) sts)"

definition calculateCompletionPercentage :: "Subtask list \<Rightarrow> int" where
  "calculateCompletionPercentage sts =
     (if sts = [] then 0
      else Math_round (js_mul (js_div (of_nat (completedCount sts)) (of_nat (length sts))) 100))"

text \<open>validateStatusTransition: membership in the table validTransitions.\<close>

fun validTransitions :: "status \<Rightarrow> status list" where
  "validTransitions Pending = [InProgress, Cancelled]"
| "validTransitions InProgress = [Completed, Pending, Cancelled]"
| "validTransitions Completed = [Pending]"
| "validTransitions Cancelled = [Pending]"

definition validateStatusTransition :: "status \<Rightarrow> status \<Rightarrow> bool" where
  "validateStatusTransition currentStatus newStatus =
     (newStatus \<in> set (validTransitions currentStatus))"

text \<open>
  validateUniqueContent: no subtask other than the excluded id has the same content up
  to letter case. With no \<open>excludeId\<close> the comparison \<open>st.id !== undefined\<close> is always true.
\<close>

definition validateUniqueContent :: "Subtask list \<Rightarrow> string \<Rightarrow> string option \<Rightarrow> bool" where
  "validateUniqueContent sts newContent excludeId =
     (\<not> list_ex (\<lambda>st. toLowerCase (content st) = toLowerCase newContent
                        \<and> Some (subtask_id st) \<noteq> excludeId) sts)"

text \<open>
  validateSubtaskData, on the content. The status of a subtask specification is a member
  of the enumeration by its type, so the "Invalid status value" branch cannot be taken.
\<close>

datatype verror = ContentRequired | ContentEmpty | ContentTooLong | ContentWhitespace

definition validateSubtaskData :: "string \<Rightarrow> verror list" where
  "validateSubtaskData c =
     (if c = [] then [ContentRequired]
      else (if length c < 1 then [ContentEmpty] else [])
         @ (if 500 < length c then [ContentTooLong] else [])
         @ (if length (trim c) = 0 then [ContentWhitespace] else []))"

text \<open>\<open>task.completionPercentage || 0\<close>\<close>

definition percentage_or0 :: "int option \<Rightarrow> int" where
  "percentage_or0 p = (case p of None \<Rightarrow> 0 | Some v \<Rightarrow> v)"

text \<open>The display number of a task: the capture of \<open>/-task-(\d+)$/\<close> through parseInt.\<close>

definition taskDisplayNumber :: "string \<Rightarrow> int option" where
  "taskDisplayNumber tid =
     (case match_tail_number ''-task-'' tid of None \<Rightarrow> None | Some ds \<Rightarrow> parseInt ds)"

section \<open>Responses\<close>

text \<open>
  Every operation returns an object with a \<open>status\<close> discriminator. The constructors
  below are those statuses with the payload fields that carry data; the human-readable
  \<open>message\<close> (and the rendered progress table inside it) is left out, except that the
  message of a plain error is kept because it is all that tells such errors apart.
\<close>

datatype code =
    TASK_NOT_FOUND | MISSING_SUBTASKS | VALIDATION_FAILED | MISSING_SUBTASK_ID
  | MISSING_UPDATES | NO_SUBTASKS | SUBTASK_NOT_FOUND | UPDATE_VALIDATION_FAILED
  | ALREADY_COMPLETED | INVALID_TRANSITION | CANNOT_DELETE_COMPLETED | TOO_MANY_SUBTASKS
  | DUPLICATE_CONTENT | SCHEMA_VALIDATION_FAILED

datatype item_error =
    ItemInvalid nat "verror list"
  | ItemDuplicate nat string
  | FieldInvalid verror
  | ContentExists string
  | BadTransition status status

datatype response =
    Error string
  | ErrorCode code "item_error list"
  | Planned string "Task list"
  | Already_completed
  | All_tasks_done
  | No_next_task
  | Next_task string "int option" string string
  | Already_done
  | Subtasks_incomplete int nat
  | Task_marked_done string Task
  | Already_approved
  | Task_approved string Task
  | Request_approved_complete string
  | Task_details string Task
  | Task_not_found
  | Requests_listed "(string \<times> nat \<times> nat \<times> nat) list"
  | Tasks_added "Task list"
  | Task_updated Task
  | Task_deleted
  | All_tasks_cleared nat nat
  | Subtasks_created "Subtask list" int nat
  | Subtask_updated Subtask int
  | Subtask_completed Subtask int nat
  | Subtask_deleted Subtask int nat
  | Task_broken_down "Subtask list" int

section \<open>Persistence gateway\<close>

definition requestNumbers :: "RequestEntry list \<Rightarrow> int list" where
  "requestNumbers rs =
     List.map_filter (\<lambda>r. parseInt (replace_first_empty ''req-'' (requestId r))) rs"

definition subtaskNumber :: "Subtask \<Rightarrow> int option" where
  "subtaskNumber st =
     (case match_tail_number ''-subtask-'' (subtask_id st) of
        None \<Rightarrow> None
      | Some ds \<Rightarrow> parseInt ds)"

definition subtaskNumbers :: "RequestEntry list \<Rightarrow> int list" where
  "subtaskNumbers rs =
     concat (map (\<lambda>r. concat (map (\<lambda>t. case subtasks t of
                                          None \<Rightarrow> []
                                        | Some sts \<Rightarrow> List.map_filter subtaskNumber sts)
                                 (tasks r))) rs)"

text \<open>
  loadTasks reads the document and recomputes both counters as the largest number seen
  (0 when none is). When the file is absent the document is empty and the counters are
  still 0, which is what the recomputation gives on the empty document.
\<close>

definition loadTasks :: "Server \<Rightarrow> Server" where
  "loadTasks s =
     (let allRequestIds = requestNumbers (data s);
          allTaskIds = subtaskNumbers (data s)
      in s\<lparr>requestCounter := (if allRequestIds \<noteq> [] then Math_max allRequestIds else 0),
           taskCounter := (if allTaskIds \<noteq> [] then Math_max allTaskIds else 0)\<rparr>)"

text \<open>Writing one task back in place: request \<open>ri\<close>, task \<open>ti\<close>.\<close>

definition put_task :: "Server \<Rightarrow> nat \<Rightarrow> nat \<Rightarrow> Task \<Rightarrow> Server" where
  "put_task s ri ti t =
     s\<lparr>data := (data s)[ri := (data s ! ri)\<lparr>tasks := (tasks (data s ! ri))[ti := t]\<rparr>]\<rparr>"

section \<open>Request and task operations\<close>

definition mk_task :: "string \<Rightarrow> string \<Rightarrow> string \<Rightarrow> Task" where
  "mk_task tid ttl desc =
     \<lparr>task_id = tid, title = ttl, description = desc, task_done = False, approved = False,
      completedDetails = [], subtasks = None, completionPercentage = None\<rparr>"

text \<open>
  The loop shared by requestPlanning and addTasksToRequest: one task per definition, with
  the id \<^verbatim>\<open>`req-${requestId}-task-${k}`\<close> and \<open>k\<close> counting up from its start value.
\<close>

definition task_id_of :: "string \<Rightarrow> int \<Rightarrow> string" where
  "task_id_of rid k = ''req-'' @ rid @ ''-task-'' @ show_int k"

fun build_tasks :: "string \<Rightarrow> int \<Rightarrow> (string \<times> string) list \<Rightarrow> Task list" where
  "build_tasks rid k [] = []"
| "build_tasks rid k (d # ds) =
     mk_task (task_id_of rid k) (fst d) (snd d) # build_tasks rid (k + 1) ds"

definition requestPlanning ::
  "Server \<Rightarrow> string \<Rightarrow> (string \<times> string) list \<Rightarrow> string option \<Rightarrow> response \<times> Server" where
  "requestPlanning s0 origReq taskDefs split =
     (let s = loadTasks s0;
          rc = requestCounter s + 1;
          rid = ''req-'' @ show_int rc;
          newTasks = build_tasks rid 1 taskDefs;
          entry = \<lparr>requestId = rid, originalRequest = origReq,
                   splitDetails = (if truthy split then the split else origReq),
                   tasks = newTasks, completed = False\<rparr>
      in (Planned rid newTasks,
          s\<lparr>requestCounter := rc,
            taskCounter := taskCounter s + int (length taskDefs),
            data := data s @ [entry]\<rparr>))"

definition getNextTask :: "Server \<Rightarrow> string \<Rightarrow> response \<times> Server" where
  "getNextTask s0 rid =
     (let s = loadTasks s0 in
      case find (\<lambda>r. requestId r = rid) (data s) of
        None \<Rightarrow> (Error ''Request not found'', s)
      | Some req \<Rightarrow>
          if completed req then (Already_completed, s)
          else (case find (\<lambda>t. \<not> task_done t) (tasks req) of
                  None \<Rightarrow>
                    if list_all task_done (tasks req) \<and> \<not> completed req
                    then (All_tasks_done, s) else (No_next_task, s)
                | Some nextTask \<Rightarrow>
                    (Next_task (task_id nextTask) (taskDisplayNumber (task_id nextTask))
                       (title nextTask) (description nextTask), s)))"

definition markTaskDone ::
  "Server \<Rightarrow> string \<Rightarrow> string \<Rightarrow> string option \<Rightarrow> response \<times> Server" where
  "markTaskDone s0 rid tid details =
     (let s = loadTasks s0 in
      case findIndex (\<lambda>r. requestId r = rid) (data s) of
        None \<Rightarrow> (Error ''Request not found'', s)
      | Some ri \<Rightarrow>
          let req = data s ! ri in
          (case findIndex (\<lambda>t. task_id t = tid) (tasks req) of
             None \<Rightarrow> (Error ''Task not found'', s)
           | Some ti \<Rightarrow>
               let task = tasks req ! ti in
               if task_done task then (Already_done, s)
               else (case subtasks task of
                       Some sts \<Rightarrow>
                         if sts \<noteq> [] \<and> \<not> list_all (\<lambda>st. status st = Completed) sts
                         then (Subtasks_incomplete (percentage_or0 (completionPercentage task))
                                 (length (filter (\<lambda>st. status st \<noteq> Completed) sts)), s)
                         else (let task' = task\<lparr>task_done := True,
                                     completedDetails := (if truthy details then the details else [])\<rparr>
                               in (Task_marked_done (requestId req) task', put_task s ri ti task'))
                     | None \<Rightarrow>
                         (let task' = task\<lparr>task_done := True,
                                completedDetails := (if truthy details then the details else [])\<rparr>
                          in (Task_marked_done (requestId req) task', put_task s ri ti task')))))"

definition approveTaskCompletion :: "Server \<Rightarrow> string \<Rightarrow> string \<Rightarrow> response \<times> Server" where
  "approveTaskCompletion s0 rid tid =
     (let s = loadTasks s0 in
      case findIndex (\<lambda>r. requestId r = rid) (data s) of
        None \<Rightarrow> (Error ''Request not found'', s)
      | Some ri \<Rightarrow>
          let req = data s ! ri in
          (case findIndex (\<lambda>t. task_id t = tid) (tasks req) of
             None \<Rightarrow> (Error ''Task not found'', s)
           | Some ti \<Rightarrow>
               let task = tasks req ! ti in
               if \<not> task_done task then (Error ''Task not done yet.'', s)
               else if approved task then (Already_approved, s)
               else (let task' = task\<lparr>approved := True\<rparr>
                     in (Task_approved (requestId req) task', put_task s ri ti task'))))"

definition approveRequestCompletion :: "Server \<Rightarrow> string \<Rightarrow> response \<times> Server" where
  "approveRequestCompletion s0 rid =
     (let s = loadTasks s0 in
      case findIndex (\<lambda>r. requestId r = rid) (data s) of
        None \<Rightarrow> (Error ''Request not found'', s)
      | Some ri \<Rightarrow>
          let req = data s ! ri in
          if \<not> list_all task_done (tasks req) then (Error ''Not all tasks are done.'', s)
          else if \<not> list_all (\<lambda>t. task_done t \<and> approved t) (tasks req)
          then (Error ''Not all done tasks are approved.'', s)
          else (Request_approved_complete (requestId req),
                s\<lparr>data := (data s)[ri := req\<lparr>completed := True\<rparr>]\<rparr>))"

definition openTaskDetails :: "Server \<Rightarrow> string \<Rightarrow> response \<times> Server" where
  "openTaskDetails s0 tid =
     (let s = loadTasks s0 in
      case find (\<lambda>r. find (\<lambda>t. task_id t = tid) (tasks r) \<noteq> None) (data s) of
        None \<Rightarrow> (Task_not_found, s)
      | Some req \<Rightarrow> (Task_details (requestId req) (the (find (\<lambda>t. task_id t = tid) (tasks req))), s))"

definition listRequests :: "Server \<Rightarrow> response \<times> Server" where
  "listRequests s0 =
     (let s = loadTasks s0 in
      (Requests_listed
         (map (\<lambda>r. (requestId r, length (tasks r), length (filter task_done (tasks r)),
                     length (filter approved (tasks r)))) (data s)), s))"

text \<open>
  The number a task already holds, as addTasksToRequest reads it:
  \<^verbatim>\<open>parseInt(t.id.split('-task-')[1]) || 0\<close>.
\<close>

definition taskNumber :: "Task \<Rightarrow> int" where
  "taskNumber t = parseInt_or0 (split_second ''-task-'' (task_id t))"

definition maxTaskNum :: "Task list \<Rightarrow> int" where
  "maxTaskNum existingTasks =
     (if existingTasks \<noteq> [] then Math_max (map taskNumber existingTasks) else 0)"

definition addTasksToRequest ::
  "Server \<Rightarrow> string \<Rightarrow> (string \<times> string) list \<Rightarrow> response \<times> Server" where
  "addTasksToRequest s0 rid taskDefs =
     (let s = loadTasks s0 in
      case findIndex (\<lambda>r. requestId r = rid) (data s) of
        None \<Rightarrow> (Error ''Request not found'', s)
      | Some ri \<Rightarrow>
          let req = data s ! ri in
          if completed req then (Error ''Cannot add tasks to completed request'', s)
          else (let newTasks = build_tasks rid (maxTaskNum (tasks req) + 1) taskDefs
                in (Tasks_added newTasks,
                    s\<lparr>taskCounter := taskCounter s + int (length taskDefs),
                      data := (data s)[ri := req\<lparr>tasks := tasks req @ newTasks\<rparr>]\<rparr>)))"

definition updateTask ::
  "Server \<Rightarrow> string \<Rightarrow> string \<Rightarrow> string option \<Rightarrow> string option \<Rightarrow> response \<times> Server" where
  "updateTask s0 rid tid new_title new_description =
     (let s = loadTasks s0 in
      case findIndex (\<lambda>r. requestId r = rid) (data s) of
        None \<Rightarrow> (Error ''Request not found'', s)
      | Some ri \<Rightarrow>
          let req = data s ! ri in
          (case findIndex (\<lambda>t. task_id t = tid) (tasks req) of
             None \<Rightarrow> (Error ''Task not found'', s)
           | Some ti \<Rightarrow>
               let task = tasks req ! ti in
               if task_done task then (Error ''Cannot update completed task'', s)
               else (let t1 = (if truthy new_title then task\<lparr>title := the new_title\<rparr> else task);
                         t2 = (if truthy new_description
                               then t1\<lparr>description := the new_description\<rparr> else t1)
                     in (Task_updated t2, put_task s ri ti t2))))"

definition deleteTask :: "Server \<Rightarrow> string \<Rightarrow> string \<Rightarrow> response \<times> Server" where
  "deleteTask s0 rid tid =
     (let s = loadTasks s0 in
      case findIndex (\<lambda>r. requestId r = rid) (data s) of
        None \<Rightarrow> (Error ''Request not found'', s)
      | Some ri \<Rightarrow>
          let req = data s ! ri in
          (case findIndex (\<lambda>t. task_id t = tid) (tasks req) of
             None \<Rightarrow> (Error ''Task not found'', s)
           | Some taskIndex \<Rightarrow>
               if task_done (tasks req ! taskIndex)
               then (Error ''Cannot delete completed task'', s)
               else (Task_deleted,
                     s\<lparr>data := (data s)[ri := req\<lparr>tasks := take taskIndex (tasks req)
                                                     @ drop (Suc taskIndex) (tasks req)\<rparr>]\<rparr>)))"

definition clearAllTasks :: "Server \<Rightarrow> response \<times> Server" where
  "clearAllTasks s0 =
     (let s = loadTasks s0 in
      (All_tasks_cleared (length (data s)) (sum_list (map (\<lambda>r. length (tasks r)) (data s))),
       s\<lparr>requestCounter := 0, taskCounter := 0, data := []\<rparr>))"


section \<open>Subtask operations (manageSubtasks)\<close>

datatype action = Create | Update | Complete | Delete | Break_down

record SubtaskSpec =
  spec_id :: "string option"
  spec_content :: string
  spec_status :: "status option"

record Updates =
  upd_content :: "string option"
  upd_status :: "status option"

record ManageParams =
  taskId :: string
  action :: action
  p_subtasks :: "SubtaskSpec list option"
  subtaskId :: "string option"
  updates :: "Updates option"

text \<open>
  The search for the target task: the first request, in stored order, that has a task
  with the id, and the first such task in it.
\<close>

fun find_task :: "RequestEntry list \<Rightarrow> string \<Rightarrow> (nat \<times> nat) option" where
  "find_task [] tid = None"
| "find_task (r # rs) tid =
     (case findIndex (\<lambda>t. task_id t = tid) (tasks r) of
        Some taskIdx \<Rightarrow> Some (0, taskIdx)
      | None \<Rightarrow> (case find_task rs tid of
                    None \<Rightarrow> None
                  | Some (i, j) \<Rightarrow> Some (Suc i, j)))"

text \<open>
  \<^verbatim>\<open>subtask.id || this.generateSubtaskId(params.taskId)\<close>: the caller's id when it is
  given and not empty, else \<^verbatim>\<open>`${taskId}-subtask-${++taskCounter}`\<close>. The counter is
  returned with the id.
\<close>

definition choose_subtask_id :: "string option \<Rightarrow> string \<Rightarrow> int \<Rightarrow> string \<times> int" where
  "choose_subtask_id given tid tc =
     (if truthy given then (the given, tc)
      else (tid @ ''-subtask-'' @ show_int (tc + 1), tc + 1))"

definition mk_subtask :: "string \<Rightarrow> SubtaskSpec \<Rightarrow> string \<Rightarrow> Subtask" where
  "mk_subtask sid sp now =
     \<lparr>subtask_id = sid, content = spec_content sp,
      status = (case spec_status sp of None \<Rightarrow> Pending | Some st \<Rightarrow> st),
      createdAt = now, completedAt = None\<rparr>"

text \<open>
  The validation loop of the create action. \<open>i\<close> is the loop index; the accumulator holds
  validationErrors, validatedSubtasks and the running taskCounter. Every reading of the
  clock within one call is taken to give the same time stamp \<open>now\<close>.
\<close>

fun create_loop ::
  "Subtask list \<Rightarrow> string \<Rightarrow> string \<Rightarrow> nat \<Rightarrow> SubtaskSpec list
     \<Rightarrow> item_error list \<times> Subtask list \<times> int \<Rightarrow> item_error list \<times> Subtask list \<times> int" where
  "create_loop existing tid now i [] acc = acc"
| "create_loop existing tid now i (sp # sps) (errs, vs, tc) =
     (if validateSubtaskData (spec_content sp) \<noteq> []
      then create_loop existing tid now (Suc i) sps
             (errs @ [ItemInvalid (i + 1) (validateSubtaskData (spec_content sp))], vs, tc)
      else if \<not> validateUniqueContent existing (spec_content sp) None
      then create_loop existing tid now (Suc i) sps
             (errs @ [ItemDuplicate (i + 1) (spec_content sp)], vs, tc)
      else (case choose_subtask_id (spec_id sp) tid tc of
              (sid, tc') \<Rightarrow>
                create_loop existing tid now (Suc i) sps
                  (errs, vs @ [mk_subtask sid sp now], tc')))"

text \<open>The validation loop of the break_down action: no comparison with other subtasks.\<close>

fun break_down_loop ::
  "string \<Rightarrow> string \<Rightarrow> nat \<Rightarrow> SubtaskSpec list
     \<Rightarrow> item_error list \<times> Subtask list \<times> int \<Rightarrow> item_error list \<times> Subtask list \<times> int" where
  "break_down_loop tid now i [] acc = acc"
| "break_down_loop tid now i (sp # sps) (errs, vs, tc) =
     (if validateSubtaskData (spec_content sp) \<noteq> []
      then break_down_loop tid now (Suc i) sps
             (errs @ [ItemInvalid (i + 1) (validateSubtaskData (spec_content sp))], vs, tc)
      else (case choose_subtask_id (spec_id sp) tid tc of
              (sid, tc') \<Rightarrow>
                break_down_loop tid now (Suc i) sps
                  (errs, vs @ [mk_subtask sid sp now], tc')))"

text \<open>
  duplicateContents of break_down: the validated subtasks whose content, up to letter
  case, first occurs at an earlier index.
\<close>

definition duplicateContents :: "Subtask list \<Rightarrow> Subtask list" where
  "duplicateContents vs =
     map fst (filter (\<lambda>(st, index).
                findIndex (\<lambda>other. toLowerCase (content other) = toLowerCase (content st)) vs
                  \<noteq> Some index)
              (zip vs [0 ..< length vs]))"

definition existing_subtasks :: "Task \<Rightarrow> Subtask list" where
  "existing_subtasks t = (case subtasks t of None \<Rightarrow> [] | Some sts \<Rightarrow> sts)"

definition ms_create ::
  "Server \<Rightarrow> nat \<Rightarrow> nat \<Rightarrow> Task \<Rightarrow> ManageParams \<Rightarrow> string \<Rightarrow> response \<times> Server" where
  "ms_create s ri ti targetTask params now =
     (case p_subtasks params of
        None \<Rightarrow> (ErrorCode MISSING_SUBTASKS [], s)
      | Some specs \<Rightarrow>
          if specs = [] then (ErrorCode MISSING_SUBTASKS [], s)
          else (case create_loop (existing_subtasks targetTask) (taskId params) now 0 specs
                       ([], [], taskCounter s) of
                  (validationErrors, validatedSubtasks, tc) \<Rightarrow>
                    if validationErrors \<noteq> []
                    then (ErrorCode VALIDATION_FAILED validationErrors, s\<lparr>taskCounter := tc\<rparr>)
                    else (let sts = existing_subtasks targetTask @ validatedSubtasks;
                              pct = calculateCompletionPercentage sts;
                              task' = targetTask\<lparr>subtasks := Some sts,
                                                 completionPercentage := Some pct\<rparr>
                          in (Subtasks_created validatedSubtasks pct (length sts),
                              put_task (s\<lparr>taskCounter := tc\<rparr>) ri ti task'))))"

definition content_errors :: "Subtask list \<Rightarrow> string option \<Rightarrow> string \<Rightarrow> item_error list" where
  "content_errors sts new_content sid =
     (if truthy new_content
      then (if validateSubtaskData (the new_content) \<noteq> []
            then map FieldInvalid (validateSubtaskData (the new_content))
            else if \<not> validateUniqueContent sts (the new_content) (Some sid)
            then [ContentExists (the new_content)] else [])
      else [])"

definition status_errors :: "Subtask \<Rightarrow> status option \<Rightarrow> item_error list" where
  "status_errors subtask new_status =
     (case new_status of
        None \<Rightarrow> []
      | Some t \<Rightarrow> if \<not> validateStatusTransition (status subtask) t
                  then [BadTransition (status subtask) t] else [])"

definition apply_content :: "string option \<Rightarrow> Subtask \<Rightarrow> Subtask" where
  "apply_content new_content subtask =
     (if truthy new_content then subtask\<lparr>content := the new_content\<rparr> else subtask)"

definition apply_status :: "status option \<Rightarrow> string \<Rightarrow> Subtask \<Rightarrow> Subtask" where
  "apply_status new_status now subtask =
     (case new_status of
        None \<Rightarrow> subtask
      | Some t \<Rightarrow>
          (let oldStatus = status subtask;
               st1 = subtask\<lparr>status := t\<rparr>
           in if t = Completed \<and> oldStatus \<noteq> Completed then st1\<lparr>completedAt := Some now\<rparr>
              else if t \<noteq> Completed \<and> oldStatus = Completed then st1\<lparr>completedAt := None\<rparr>
              else st1))"

definition ms_update ::
  "Server \<Rightarrow> nat \<Rightarrow> nat \<Rightarrow> Task \<Rightarrow> ManageParams \<Rightarrow> string \<Rightarrow> response \<times> Server" where
  "ms_update s ri ti targetTask params now =
     (if \<not> truthy (subtaskId params) then (ErrorCode MISSING_SUBTASK_ID [], s)
      else (case updates params of
        None \<Rightarrow> (ErrorCode MISSING_UPDATES [], s)
      | Some u \<Rightarrow>
          if \<not> truthy (upd_content u) \<and> upd_status u = None
          then (ErrorCode MISSING_UPDATES [], s)
          else (case subtasks targetTask of
            None \<Rightarrow> (ErrorCode NO_SUBTASKS [], s)
          | Some sts \<Rightarrow>
              (case findIndex (\<lambda>st. subtask_id st = the (subtaskId params)) sts of
                 None \<Rightarrow> (ErrorCode SUBTASK_NOT_FOUND [], s)
               | Some subtaskIndex \<Rightarrow>
                   (let subtask = sts ! subtaskIndex;
                        validationErrors =
                          content_errors sts (upd_content u) (the (subtaskId params))
                          @ status_errors subtask (upd_status u)
                    in if validationErrors \<noteq> []
                       then (ErrorCode UPDATE_VALIDATION_FAILED validationErrors, s)
                       else (let subtask' = apply_status (upd_status u) now
                                              (apply_content (upd_content u) subtask);
                                 sts' = sts[subtaskIndex := subtask'];
                                 pct = calculateCompletionPercentage sts';
                                 task' = targetTask\<lparr>subtasks := Some sts',
                                                    completionPercentage := Some pct\<rparr>
                             in (Subtask_updated subtask' pct, put_task s ri ti task')))))))"

definition ms_complete ::
  "Server \<Rightarrow> nat \<Rightarrow> nat \<Rightarrow> Task \<Rightarrow> ManageParams \<Rightarrow> string \<Rightarrow> response \<times> Server" where
  "ms_complete s ri ti targetTask params now =
     (if \<not> truthy (subtaskId params) then (ErrorCode MISSING_SUBTASK_ID [], s)
      else (case subtasks targetTask of
        None \<Rightarrow> (ErrorCode NO_SUBTASKS [], s)
      | Some sts \<Rightarrow>
          (case findIndex (\<lambda>st. subtask_id st = the (subtaskId params)) sts of
             None \<Rightarrow> (ErrorCode SUBTASK_NOT_FOUND [], s)
           | Some subtaskIndex \<Rightarrow>
               (let subtask = sts ! subtaskIndex
                in if status subtask = Completed then (ErrorCode ALREADY_COMPLETED [], s)
                   else if \<not> validateStatusTransition (status subtask) Completed
                   then (ErrorCode INVALID_TRANSITION [], s)
                   else (let subtask' = subtask\<lparr>status := Completed, completedAt := Some now\<rparr>;
                             sts' = sts[subtaskIndex := subtask'];
                             pct = calculateCompletionPercentage sts';
                             task' = targetTask\<lparr>subtasks := Some sts',
                                                completionPercentage := Some pct\<rparr>
                         in (Subtask_completed subtask' pct
                               (length (filter (\<lambda>st. status st \<noteq> Completed) sts')),
                             put_task s ri ti task'))))))"

definition ms_delete ::
  "Server \<Rightarrow> nat \<Rightarrow> nat \<Rightarrow> Task \<Rightarrow> ManageParams \<Rightarrow> response \<times> Server" where
  "ms_delete s ri ti targetTask params =
     (if \<not> truthy (subtaskId params) then (ErrorCode MISSING_SUBTASK_ID [], s)
      else (case subtasks targetTask of
        None \<Rightarrow> (ErrorCode NO_SUBTASKS [], s)
      | Some sts \<Rightarrow>
          (case findIndex (\<lambda>st. subtask_id st = the (subtaskId params)) sts of
             None \<Rightarrow> (ErrorCode SUBTASK_NOT_FOUND [], s)
           | Some subtaskIndex \<Rightarrow>
               (let deletedSubtask = sts ! subtaskIndex
                in if status deletedSubtask = Completed
                   then (ErrorCode CANNOT_DELETE_COMPLETED [], s)
                   else (let sts' = take subtaskIndex sts @ drop (Suc subtaskIndex) sts;
                             pct = calculateCompletionPercentage sts';
                             task' = targetTask\<lparr>subtasks := Some sts',
                                                completionPercentage := Some pct\<rparr>
                         in (Subtask_deleted deletedSubtask pct (length sts'),
                             put_task s ri ti task'))))))"

definition ms_break_down ::
  "Server \<Rightarrow> nat \<Rightarrow> nat \<Rightarrow> Task \<Rightarrow> ManageParams \<Rightarrow> string \<Rightarrow> response \<times> Server" where
  "ms_break_down s ri ti targetTask params now =
     (case p_subtasks params of
        None \<Rightarrow> (ErrorCode MISSING_SUBTASKS [], s)
      | Some specs \<Rightarrow>
          if specs = [] then (ErrorCode MISSING_SUBTASKS [], s)
          else if 50 < length specs then (ErrorCode TOO_MANY_SUBTASKS [], s)
          else (case break_down_loop (taskId params) now 0 specs ([], [], taskCounter s) of
                  (validationErrors, validatedSubtasks, tc) \<Rightarrow>
                    if validationErrors \<noteq> []
                    then (ErrorCode VALIDATION_FAILED validationErrors, s\<lparr>taskCounter := tc\<rparr>)
                    else if duplicateContents validatedSubtasks \<noteq> []
                    then (ErrorCode DUPLICATE_CONTENT
                            [ItemDuplicate 0 (content (hd (duplicateContents validatedSubtasks)))],
                          s\<lparr>taskCounter := tc\<rparr>)
                    else (let pct = calculateCompletionPercentage validatedSubtasks;
                              task' = targetTask\<lparr>subtasks := Some validatedSubtasks,
                                                 completionPercentage := Some pct\<rparr>
                          in (Task_broken_down validatedSubtasks pct,
                              put_task (s\<lparr>taskCounter := tc\<rparr>) ri ti task'))))"

text \<open>
  manageSubtasks. No step of the model throws, so the catch block (rollback to the backup
  copy and INTERNAL_ERROR) is not reached and the backup file plays no part.
\<close>

definition manageSubtasks :: "Server \<Rightarrow> ManageParams \<Rightarrow> string \<Rightarrow> response \<times> Server" where
  "manageSubtasks s0 params now =
     (let s = loadTasks s0 in
      case find_task (data s) (taskId params) of
        None \<Rightarrow> (ErrorCode TASK_NOT_FOUND [], s)
      | Some (ri, ti) \<Rightarrow>
          (let targetTask = tasks (data s ! ri) ! ti in
           case action params of
             Create \<Rightarrow> ms_create s ri ti targetTask params now
           | Update \<Rightarrow> ms_update s ri ti targetTask params now
           | Complete \<Rightarrow> ms_complete s ri ti targetTask params now
           | Delete \<Rightarrow> ms_delete s ri ti targetTask params
           | Break_down \<Rightarrow> ms_break_down s ri ti targetTask params now))"

subsection \<open>The tool handler: ManageSubtasksSchema in front of manageSubtasks\<close>

text \<open>
  The handler of the tool \<open>manage_subtasks\<close> parses the arguments with
  ManageSubtasksSchema and passes the parsed data on. Parsing checks the lengths of the
  raw strings, then trims the content; SubtaskSchema then refuses a content that is
  empty after trimming and fills in the default status.
\<close>

definition SubtaskSchema :: "SubtaskSpec \<Rightarrow> SubtaskSpec option" where
  "SubtaskSchema raw =
     (if length (spec_content raw) < 1 \<or> 500 < length (spec_content raw) then None
      else if length (trim (spec_content raw)) = 0 then None
      else Some (raw\<lparr>spec_content := trim (spec_content raw),
                     spec_status := Some (case spec_status raw of None \<Rightarrow> Pending | Some st \<Rightarrow> st)\<rparr>))"

definition UpdatesSchema :: "Updates \<Rightarrow> Updates option" where
  "UpdatesSchema raw =
     (case upd_content raw of
        None \<Rightarrow> Some raw
      | Some c \<Rightarrow> if length c < 1 \<or> 500 < length c then None
                  else Some (raw\<lparr>upd_content := Some (trim c)\<rparr>))"

fun parse_all :: "('a \<Rightarrow> 'a option) \<Rightarrow> 'a list \<Rightarrow> 'a list option" where
  "parse_all f [] = Some []"
| "parse_all f (x # xs) =
     (case f x of
        None \<Rightarrow> None
      | Some y \<Rightarrow> (case parse_all f xs of None \<Rightarrow> None | Some ys \<Rightarrow> Some (y # ys)))"

definition action_refinement :: "ManageParams \<Rightarrow> bool" where
  "action_refinement d =
     (case action d of
        Create \<Rightarrow> \<not> (p_subtasks d = None \<or> p_subtasks d = Some [])
      | Update \<Rightarrow> \<not> (\<not> truthy (subtaskId d) \<or> updates d = None
                      \<or> (\<not> truthy (upd_content (the (updates d)))
                          \<and> upd_status (the (updates d)) = None))
      | Complete \<Rightarrow> truthy (subtaskId d)
      | Delete \<Rightarrow> truthy (subtaskId d)
      | Break_down \<Rightarrow> \<not> (p_subtasks d = None \<or> p_subtasks d = Some []))"

definition ManageSubtasksSchema :: "ManageParams \<Rightarrow> ManageParams option" where
  "ManageSubtasksSchema raw =
     (if length (taskId raw) < 1 then None
      else (case (case p_subtasks raw of
                    None \<Rightarrow> Some None
                  | Some specs \<Rightarrow> if 50 < length specs then None
                                  else map_option Some (parse_all SubtaskSchema specs)) of
              None \<Rightarrow> None
            | Some specs' \<Rightarrow>
                (case (case updates raw of
                         None \<Rightarrow> Some None
                       | Some u \<Rightarrow> map_option Some (UpdatesSchema u)) of
                   None \<Rightarrow> None
                 | Some u' \<Rightarrow>
                     (let d = raw\<lparr>p_subtasks := specs', updates := u'\<rparr>
                      in if action_refinement d then Some d else None))))"

definition call_manage_subtasks :: "Server \<Rightarrow> ManageParams \<Rightarrow> string \<Rightarrow> response \<times> Server" where
  "call_manage_subtasks s args now =
     (case ManageSubtasksSchema args of
        None \<Rightarrow> (ErrorCode SCHEMA_VALIDATION_FAILED [], s)
      | Some parsed \<Rightarrow> manageSubtasks s parsed now)"

section \<open>Sequences of operations\<close>

datatype operation =
    RequestPlanning string "(string \<times> string) list" "string option"
  | GetNextTask string
  | MarkTaskDone string string "string option"
  | ApproveTaskCompletion string string
  | ApproveRequestCompletion string
  | OpenTaskDetails string
  | ListRequests
  | AddTasksToRequest string "(string \<times> string) list"
  | UpdateTask string string "string option" "string option"
  | DeleteTask string string
  | ClearAllTasks
  | ManageSubtasks ManageParams string

fun run :: "Server \<Rightarrow> operation \<Rightarrow> response \<times> Server" where
  "run s (RequestPlanning orig defs split) = requestPlanning s orig defs split"
| "run s (GetNextTask rid) = getNextTask s rid"
| "run s (MarkTaskDone rid tid details) = markTaskDone s rid tid details"
| "run s (ApproveTaskCompletion rid tid) = approveTaskCompletion s rid tid"
| "run s (ApproveRequestCompletion rid) = approveRequestCompletion s rid"
| "run s (OpenTaskDetails tid) = openTaskDetails s tid"
| "run s ListRequests = listRequests s"
| "run s (AddTasksToRequest rid defs) = addTasksToRequest s rid defs"
| "run s (UpdateTask rid tid ttl desc) = updateTask s rid tid ttl desc"
| "run s (DeleteTask rid tid) = deleteTask s rid tid"
| "run s ClearAllTasks = clearAllTasks s"
| "run s (ManageSubtasks params now) = call_manage_subtasks s params now"

definition step :: "Server \<Rightarrow> operation \<Rightarrow> Server" where
  "step s opn = snd (run s opn)"

definition run_all :: "Server \<Rightarrow> operation list \<Rightarrow> Server" where
  "run_all s ops = foldl step s ops"

inductive reachable :: "Server \<Rightarrow> bool" where
  reachable_init: "reachable init_server"
| reachable_step: "reachable s \<Longrightarrow> reachable (step s opn)"


section \<open>Predicates used in the statements, and example states\<close>

text \<open>A task has one or more subtasks and at least one of them is not completed.\<close>

definition has_unfinished_subtask :: "Task \<Rightarrow> bool" where
  "has_unfinished_subtask t =
     (case subtasks t of
        None \<Rightarrow> False
      | Some sts \<Rightarrow> sts \<noteq> [] \<and> list_ex (\<lambda>st. status st \<noteq> Completed) sts)"

definition mark_succeeded :: "response \<Rightarrow> bool" where
  "mark_succeeded r = (case r of Task_marked_done rid t \<Rightarrow> True | _ \<Rightarrow> False)"

text \<open>Two documents that differ at most in the approved flags of their tasks.\<close>

definition same_but_approved :: "Task \<Rightarrow> Task \<Rightarrow> bool" where
  "same_but_approved t t' = (t' = t\<lparr>approved := approved t'\<rparr>)"

definition same_but_approvals :: "RequestEntry \<Rightarrow> RequestEntry \<Rightarrow> bool" where
  "same_but_approvals r r' =
     (requestId r' = requestId r \<and> originalRequest r' = originalRequest r
      \<and> splitDetails r' = splitDetails r \<and> completed r' = completed r
      \<and> list_all2 same_but_approved (tasks r) (tasks r'))"

text \<open>Example runs from the empty document.\<close>

definition spec_of :: "string \<Rightarrow> status \<Rightarrow> SubtaskSpec" where
  "spec_of c st = \<lparr>spec_id = None, spec_content = c, spec_status = Some st\<rparr>"

definition create_params :: "string \<Rightarrow> SubtaskSpec list \<Rightarrow> ManageParams" where
  "create_params tid specs =
     \<lparr>taskId = tid, action = Create, p_subtasks = Some specs, subtaskId = None,
      updates = None\<rparr>"

definition st_planned :: Server where
  "st_planned = run_all init_server
     [RequestPlanning ''Build a mobile app''
        [(''Build Mobile App'', ''Create the app''), (''Ship'', ''Release it'')] None]"

definition st_subtasks :: Server where
  "st_subtasks = run_all st_planned
     [ManageSubtasks (create_params ''req-req-1-task-1''
        [spec_of ''Design'' Completed, spec_of ''Implement'' Pending]) ''2024-01-15T10:30:00Z'']"

definition st_first_done :: Server where
  "st_first_done = run_all st_planned
     [MarkTaskDone ''req-1'' ''req-req-1-task-1'' (Some ''built'')]"

definition st_first_approved :: Server where
  "st_first_approved = run_all st_first_done
     [ApproveTaskCompletion ''req-1'' ''req-req-1-task-1'']"

definition break_down_params :: "string \<Rightarrow> SubtaskSpec list \<Rightarrow> ManageParams" where
  "break_down_params tid specs =
     \<lparr>taskId = tid, action = Break_down, p_subtasks = Some specs, subtaskId = None,
      updates = None\<rparr>"

definition st_all_approved :: Server where
  "st_all_approved = run_all init_server
     [RequestPlanning ''Write the report'' [(''Draft'', ''Write the draft'')] None,
      MarkTaskDone ''req-1'' ''req-req-1-task-1'' None,
      ApproveTaskCompletion ''req-1'' ''req-req-1-task-1'']"

definition st_deleted :: Server where
  "st_deleted = run_all st_planned [DeleteTask ''req-1'' ''req-req-1-task-2'']"

definition update_params ::
  "string \<Rightarrow> string \<Rightarrow> string option \<Rightarrow> status option \<Rightarrow> ManageParams" where
  "update_params tid sid c st =
     \<lparr>taskId = tid, action = Update, p_subtasks = None, subtaskId = Some sid,
      updates = Some \<lparr>upd_content = c, upd_status = st\<rparr>\<rparr>"

definition complete_params :: "string \<Rightarrow> string \<Rightarrow> ManageParams" where
  "complete_params tid sid =
     \<lparr>taskId = tid, action = Complete, p_subtasks = None, subtaskId = Some sid,
      updates = None\<rparr>"

definition st_fix_bug :: Server where
  "st_fix_bug = run_all st_planned
     [ManageSubtasks (create_params ''req-req-1-task-1''
        [spec_of ''Fix bug'' Pending, spec_of ''Write docs'' Pending]) ''2024-01-15T10:30:00Z'']"

definition st_one_completed :: Server where
  "st_one_completed = run_all st_planned
     [ManageSubtasks (create_params ''req-req-1-task-1'' [spec_of ''Design'' Pending])
        ''2024-01-15T10:30:00Z'',
      ManageSubtasks (update_params ''req-req-1-task-1'' ''req-req-1-task-1-subtask-1''
        None (Some InProgress)) ''2024-01-15T10:31:00Z'',
      ManageSubtasks (complete_params ''req-req-1-task-1'' ''req-req-1-task-1-subtask-1'')
        ''2024-01-15T10:32:00Z'']"

text \<open>The transition table of the specification, as a set of pairs (from, to).\<close>

definition transition_table :: "(status \<times> status) set" where
  "transition_table =
     {(Pending, InProgress), (Pending, Cancelled),
      (InProgress, Completed), (InProgress, Pending), (InProgress, Cancelled),
      (Completed, Pending), (Cancelled, Pending)}"

definition delete_params :: "string \<Rightarrow> string \<Rightarrow> ManageParams" where
  "delete_params tid sid =
     \<lparr>taskId = tid, action = Delete, p_subtasks = None, subtaskId = Some sid,
      updates = None\<rparr>"

text \<open>
  The gate of markTaskDone as a property of a task, and of a whole document: a task that
  is done has no subtask that is not completed.
\<close>

definition gate_ok :: "Task \<Rightarrow> bool" where
  "gate_ok t = (task_done t \<longrightarrow> \<not> has_unfinished_subtask t)"

definition done_invariant :: "Server \<Rightarrow> bool" where
  "done_invariant s = list_all (\<lambda>r. list_all gate_ok (tasks r)) (data s)"

text \<open>
  The operations that are not gated on the done flag: the subtask actions create, update
  and break_down whose target task is already done.
\<close>

definition mutates_done_task :: "Server \<Rightarrow> operation \<Rightarrow> bool" where
  "mutates_done_task s opn =
     (case opn of
        ManageSubtasks p now \<Rightarrow>
          (action p = Create \<or> action p = Update \<or> action p = Break_down)
          \<and> (case find_task (data s) (taskId p) of
                None \<Rightarrow> False
              | Some (ri, ti) \<Rightarrow> task_done (tasks (data s ! ri) ! ti))
      | _ \<Rightarrow> False)"

fun gated :: "Server \<Rightarrow> operation list \<Rightarrow> bool" where
  "gated s [] = True"
| "gated s (opn # ops) = (\<not> mutates_done_task s opn \<and> gated (step s opn) ops)"

text \<open>
  What a subtask action leaves behind: after a success the target task, rewritten with
  its percentage recomputed from its subtasks and its done flag untouched; after a
  failure the document as it was.
\<close>

definition recomputed :: "Task \<Rightarrow> Task \<Rightarrow> bool" where
  "recomputed t t' =
     (task_done t' = task_done t
      \<and> (\<exists>sts. subtasks t' = Some sts
               \<and> completionPercentage t' = Some (calculateCompletionPercentage sts)))"

definition subtask_success :: "response \<Rightarrow> bool" where
  "subtask_success r =
     (case r of
        Subtasks_created vs pct n \<Rightarrow> True
      | Subtask_updated st pct \<Rightarrow> True
      | Subtask_completed st pct n \<Rightarrow> True
      | Subtask_deleted st pct n \<Rightarrow> True
      | Task_broken_down vs pct \<Rightarrow> True
      | _ \<Rightarrow> False)"

definition ms_outcome :: "Server \<Rightarrow> nat \<Rightarrow> nat \<Rightarrow> Task \<Rightarrow> response \<times> Server \<Rightarrow> bool" where
  "ms_outcome s ri ti t res =
     (if subtask_success (fst res)
      then (\<exists>t'. data (snd res) = data (put_task s ri ti t') \<and> recomputed t t')
      else data (snd res) = data s)"

definition done_task_ops :: "operation list" where
  "done_task_ops =
     [RequestPlanning ''Write the report'' [(''Draft'', ''Write the draft'')] None,
      ManageSubtasks (create_params ''req-req-1-task-1'' [spec_of ''Outline'' Completed])
        ''2024-01-15T10:30:00Z'',
      MarkTaskDone ''req-1'' ''req-req-1-task-1'' None]"

definition gated_ops :: "operation list" where
  "gated_ops = done_task_ops @
     [ManageSubtasks (delete_params ''req-req-1-task-1'' ''req-req-1-task-1-subtask-1'')
        ''2024-01-15T10:40:00Z'',
      ManageSubtasks (complete_params ''req-req-1-task-1'' ''req-req-1-task-1-subtask-1'')
        ''2024-01-15T10:41:00Z'',
      ApproveTaskCompletion ''req-1'' ''req-req-1-task-1'',
      AddTasksToRequest ''req-1'' [(''Review'', ''Review the draft'')],
      ManageSubtasks (create_params ''req-req-1-task-2'' [spec_of ''Read'' Pending])
        ''2024-01-15T10:42:00Z'']"

definition forty_specs :: "SubtaskSpec list" where
  "forty_specs =
     map (\<lambda>i. spec_of (''Step '' @ show_nat i) Completed) [1 ..< 24]
     @ map (\<lambda>i. spec_of (''Step '' @ show_nat i) Pending) [24 ..< 41]"

definition spec_with_id :: "string \<Rightarrow> string \<Rightarrow> SubtaskSpec" where
  "spec_with_id sid c = \<lparr>spec_id = Some sid, spec_content = c, spec_status = Some Pending\<rparr>"

definition st_shared_id :: Server where
  "st_shared_id = run_all st_planned
     [ManageSubtasks (create_params ''req-req-1-task-1''
        [spec_with_id ''x'' ''Alpha'', spec_with_id ''x'' ''Beta'']) ''2024-01-15T10:30:00Z'']"

section \<open>Basic facts\<close>

lemma data_loadTasks [simp]: "data (loadTasks s) = data s"
  by (simp add: loadTasks_def Let_def)

lemma data_put_task [simp]:
  "data (put_task s ri ti t) =
     (data s)[ri := (data s ! ri)\<lparr>tasks := (tasks (data s ! ri))[ti := t]\<rparr>]"
  by (simp add: put_task_def)

lemma findIndex_Some:
  "findIndex P xs = Some i \<Longrightarrow> i < length xs \<and> P (xs ! i) \<and> (\<forall>j<i. \<not> P (xs ! j))"
proof (induction xs arbitrary: i)
  case Nil
  then show ?case by simp
next
  case (Cons x xs)
  show ?case
  proof (cases "P x")
    case True
    with Cons.prems show ?thesis by simp
  next
    case False
    with Cons.prems obtain k where k: "findIndex P xs = Some k" "i = Suc k"
      by auto
    from Cons.IH [OF k(1)] False k(2) show ?thesis
      by (auto simp: less_Suc_eq_0_disj)
  qed
qed

lemma findIndex_None: "findIndex P xs = None \<longleftrightarrow> (\<forall>x\<in>set xs. \<not> P x)"
  by (induction xs) auto

lemma find_list_all2:
  assumes "list_all2 R xs ys" and "\<And>x y. R x y \<Longrightarrow> P x = Q y"
  shows "rel_option R (find P xs) (find Q ys)"
  using assms by (induction rule: list_all2_induct) auto

lemma same_but_approved_fields:
  "same_but_approved t t' \<Longrightarrow>
     task_done t' = task_done t \<and> task_id t' = task_id t \<and> title t' = title t
     \<and> description t' = description t"
  unfolding same_but_approved_def
  by (cases t, cases t') auto

subsection \<open>Letter case and white space up to U+00FF\<close>

lemma lowerChar_changes:
  "(lowerChar c \<noteq> c) =
     ((of_char c :: nat) \<in> {65 .. 90} \<union> {192 .. 214} \<union> {216 .. 222})"
proof -
  have "(of_char c :: nat) < 256"
    by simp
  moreover have "char_of ((of_char c :: nat) + 32) \<noteq> c"
    if "(of_char c :: nat) + 32 < 256"
  proof
    assume "char_of ((of_char c :: nat) + 32) = c"
    then have "(of_char (char_of ((of_char c :: nat) + 32) :: char) :: nat) = of_char c"
      by simp
    with that show False
      by simp
  qed
  ultimately show ?thesis
    by (auto simp: lowerChar_def)
qed

lemma latin1_examples:
  "toLowerCase [CHR ''C'', CHR ''A'', CHR ''F'', CHR 0xC9]
     = [CHR ''c'', CHR ''a'', CHR ''f'', CHR 0xE9]
   \<and> toLowerCase [CHR 0xD7, CHR 0xDF, CHR 0xFF] = [CHR 0xD7, CHR 0xDF, CHR 0xFF]
   \<and> trim ([CHR 0xA0, CHR 0x09] @ ''fix bug'' @ [CHR 0x20, CHR 0xA0]) = ''fix bug''
   \<and> trim ([CHR 0x85] @ ''fix bug'') = [CHR 0x85] @ ''fix bug''"
  by code_simp

subsection \<open>Numbers written into ids and read back\<close>

lemma of_char_digitChar: "d < 10 \<Longrightarrow> (of_char (digitChar d) :: nat) = 48 + d"
  by (simp add: digitChar_def)

lemma isDigit_digitChar: "d < 10 \<Longrightarrow> isDigit (digitChar d)"
  by (simp add: isDigit_def of_char_digitChar)

lemma digitVal_digitChar: "d < 10 \<Longrightarrow> digitVal (digitChar d) = int d"
  by (simp add: digitVal_def of_char_digitChar)

lemma show_nat_digits: "show_nat n \<noteq> [] \<and> (\<forall>c\<in>set (show_nat n). isDigit c)"
proof (induction n rule: show_nat.induct)
  case (1 n)
  show ?case
  proof (cases "n < 10")
    case True
    then show ?thesis
      by (subst show_nat.simps, subst (2) show_nat.simps) (simp add: isDigit_digitChar)
  next
    case False
    with 1 show ?thesis
      by (subst show_nat.simps, subst (2) show_nat.simps) (simp add: isDigit_digitChar)
  qed
qed

lemma digitsVal_snoc: "digitsVal (xs @ [c]) = 10 * digitsVal xs + digitVal c"
  by (simp add: digitsVal_def)

lemma digitsVal_show_nat: "digitsVal (show_nat n) = int n"
proof (induction n rule: show_nat.induct)
  case (1 n)
  show ?case
  proof (cases "n < 10")
    case True
    then show ?thesis
      by (subst show_nat.simps) (simp add: digitsVal_def digitVal_digitChar)
  next
    case False
    with 1 have "digitsVal (show_nat (n div 10)) = int (n div 10)"
      by simp
    with False show ?thesis
      by (subst show_nat.simps) (simp add: digitsVal_snoc digitVal_digitChar zdiv_int zmod_int)
  qed
qed

lemma isDigit_props:
  "isDigit c \<Longrightarrow> \<not> isWhitespace c \<and> c \<noteq> CHR ''-'' \<and> c \<noteq> CHR ''+'' \<and> c \<noteq> CHR ''t''"
  by (auto simp: isDigit_def isWhitespace_def)

lemma takeWhile_all: "(\<forall>c\<in>set xs. P c) \<Longrightarrow> takeWhile P xs = xs"
  by (induction xs) auto

lemma parseInt_show_nat: "parseInt (show_nat n) = Some (int n)"
proof -
  obtain c cs where s: "show_nat n = c # cs"
    using show_nat_digits [of n] by (cases "show_nat n") auto
  with show_nat_digits [of n] have c: "isDigit c" and cs: "\<forall>x\<in>set (c # cs). isDigit x"
    by auto
  from isDigit_props [OF c] have "dropWhile isWhitespace (c # cs) = c # cs"
    by simp
  moreover from cs have "takeWhile isDigit (c # cs) = c # cs"
    by (rule takeWhile_all)
  ultimately show ?thesis
    using isDigit_props [OF c] digitsVal_show_nat [of n]
    unfolding parseInt_def s Let_def by simp
qed

lemma parseInt_show_int: "parseInt (show_int k) = Some k"
proof (cases "k < 0")
  case False
  then show ?thesis
    by (simp add: show_int_def parseInt_show_nat)
next
  case True
  have ws: "\<not> isWhitespace CHR ''-''"
    by (simp add: isWhitespace_def)
  have tw: "takeWhile isDigit (show_nat (nat (- k))) = show_nat (nat (- k))"
    using show_nat_digits by (intro takeWhile_all) simp
  from True ws show ?thesis
    using show_nat_digits [of "nat (- k)"] digitsVal_show_nat [of "nat (- k)"]
    by (simp add: show_int_def parseInt_def Let_def tw)
qed

lemma no_hex_prefix:
  assumes "\<forall>c\<in>set s. isDigit c"
  shows "\<not> hex_prefixed s"
proof -
  have "\<not> isDigit CHR ''x''" and "\<not> isDigit CHR ''X''"
    by (simp_all add: isDigit_def)
  moreover have "take 2 s = ''0x'' \<Longrightarrow> CHR ''x'' \<in> set s"
    by (rule in_set_takeD [of _ 2]) simp
  moreover have "take 2 s = ''0X'' \<Longrightarrow> CHR ''X'' \<in> set s"
    by (rule in_set_takeD [of _ 2]) simp
  ultimately show ?thesis
    using assms unfolding hex_prefixed_def by blast
qed

lemma parseInt_auto_decimal:
  assumes "\<not> isWhitespace c" and "c \<noteq> CHR ''-''" and "c \<noteq> CHR ''+''"
      and "\<not> hex_prefixed (c # cs)"
  shows "parseInt_auto (c # cs) = parseInt (c # cs)"
  using assms unfolding parseInt_auto_def Let_def by simp

lemma parseInt_auto_negative:
  assumes "\<not> hex_prefixed cs"
  shows "parseInt_auto (CHR ''-'' # cs) = parseInt (CHR ''-'' # cs)"
proof -
  have "\<not> isWhitespace CHR ''-''"
    by (simp add: isWhitespace_def)
  with assms show ?thesis
    unfolding parseInt_auto_def Let_def by simp
qed

lemma parseInt_auto_show_int: "parseInt_auto (show_int k) = Some k"
proof (cases "k < 0")
  case True
  from show_nat_digits [of "nat (- k)"] have "\<not> hex_prefixed (show_nat (nat (- k)))"
    by (intro no_hex_prefix) simp
  then have "parseInt_auto (CHR ''-'' # show_nat (nat (- k)))
               = parseInt (CHR ''-'' # show_nat (nat (- k)))"
    by (rule parseInt_auto_negative)
  with True parseInt_show_int [of k] show ?thesis
    by (simp add: show_int_def)
next
  case False
  obtain c cs where s: "show_nat (nat k) = c # cs"
    using show_nat_digits [of "nat k"] by (cases "show_nat (nat k)") auto
  with show_nat_digits [of "nat k"] have c: "isDigit c" and all: "\<forall>x\<in>set (c # cs). isDigit x"
    by auto
  from isDigit_props [OF c] no_hex_prefix [OF all]
  have "parseInt_auto (c # cs) = parseInt (c # cs)"
    by (intro parseInt_auto_decimal) simp_all
  with False s parseInt_show_int [of k] show ?thesis
    by (simp add: show_int_def)
qed

lemma no_t_show_int: "CHR ''t'' \<notin> set (show_int k)"
  using show_nat_digits isDigit_props
  by (auto simp: show_int_def)

lemma split_first_absent:
  assumes "x \<in> set sep" and "x \<notin> set s"
  shows "split_first sep s = None"
  using assms(2)
proof (induction s)
  case Nil
  with assms(1) show ?case by auto
next
  case (Cons c cs)
  have "take (length sep) (c # cs) \<noteq> sep"
  proof
    assume "take (length sep) (c # cs) = sep"
    with assms(1) have "x \<in> set (take (length sep) (c # cs))" by simp
    then have "x \<in> set (c # cs)" by (rule in_set_takeD)
    with Cons.prems show False by simp
  qed
  with Cons show ?case by simp
qed

lemma split_first_at:
  assumes sep: "sep = a # b # sep'" and ab: "a \<noteq> b" and pre: "b \<notin> set pre"
  shows "split_first sep (pre @ sep @ rest) = Some (pre, rest)"
  using pre
proof (induction pre)
  case Nil
  show ?case by (simp add: sep)
next
  case (Cons c cs)
  have "take (length sep) ((c # cs) @ sep @ rest) \<noteq> sep"
  proof
    assume eq: "take (length sep) ((c # cs) @ sep @ rest) = sep"
    show False
    proof (cases cs)
      case Nil
      with eq ab show False by (simp add: sep)
    next
      case (Cons d ds)
      with eq Cons.prems show False by (simp add: sep)
    qed
  qed
  with Cons show ?case by simp
qed

lemma split_second_task_id_of:
  assumes "CHR ''t'' \<notin> set rid"
  shows "split_second ''-task-'' (task_id_of rid k) = Some (show_int k)"
proof -
  from assms have "CHR ''t'' \<notin> set (''req-'' @ rid)" by simp
  then have "split_first ''-task-'' ((''req-'' @ rid) @ ''-task-'' @ show_int k)
               = Some (''req-'' @ rid, show_int k)"
    by (intro split_first_at [where a = "CHR ''-''" and b = "CHR ''t''" and sep' = "''ask-''"]) simp_all
  moreover have "split_first ''-task-'' (show_int k) = None"
    by (rule split_first_absent [OF _ no_t_show_int]) simp
  ultimately show ?thesis
    by (simp add: split_second_def task_id_of_def)
qed

lemma taskNumber_mk_task:
  "CHR ''t'' \<notin> set rid \<Longrightarrow> taskNumber (mk_task (task_id_of rid k) a b) = k"
  by (simp add: taskNumber_def mk_task_def split_second_task_id_of parseInt_or0_def
        parseInt_auto_show_int)

lemma taskNumber_build_tasks:
  "CHR ''t'' \<notin> set rid \<Longrightarrow>
     map taskNumber (build_tasks rid k defs) = map (\<lambda>i. k + int i) [0 ..< length defs]"
proof (induction defs arbitrary: k)
  case Nil
  then show ?case by simp
next
  case (Cons d ds)
  have "map (\<lambda>i. k + int i) [0 ..< length (d # ds)]
          = k # map (\<lambda>i. (k + 1) + int i) [0 ..< length ds]"
    by (simp add: upt_rec [of 0] map_Suc_upt [symmetric] del: upt_Suc)
  with Cons show ?case
    by (simp add: taskNumber_mk_task)
qed

lemma Math_max_ge: "x \<in> set xs \<Longrightarrow> x \<le> Math_max xs"
proof -
  have fold: "\<And>a. a \<le> foldl max a ys \<and> (\<forall>y\<in>set ys. y \<le> foldl max a ys)" for ys :: "int list"
  proof (induction ys)
    case Nil
    show ?case by simp
  next
    case (Cons y ys)
    from Cons [of "max a y"] show ?case by auto
  qed
  assume "x \<in> set xs"
  then obtain y ys where xs: "xs = y # ys" by (cases xs) auto
  with \<open>x \<in> set xs\<close> fold [of y ys] show ?thesis
    by (auto simp: Math_max_def)
qed

lemma findIndex_update_same:
  "findIndex P xs = Some i \<Longrightarrow> P y \<Longrightarrow> findIndex P (xs[i := y]) = Some i"
proof (induction xs arbitrary: i)
  case Nil
  then show ?case by simp
next
  case (Cons x xs)
  then show ?case
    by (cases "P x") (auto split: nat.splits)
qed

subsection \<open>The target of manageSubtasks\<close>

lemma manageSubtasks_found:
  "find_task (data s) (taskId p) = Some (ri, ti) \<Longrightarrow>
   manageSubtasks s p now =
     (case action p of
        Create \<Rightarrow> ms_create (loadTasks s) ri ti (tasks (data s ! ri) ! ti) p now
      | Update \<Rightarrow> ms_update (loadTasks s) ri ti (tasks (data s ! ri) ! ti) p now
      | Complete \<Rightarrow> ms_complete (loadTasks s) ri ti (tasks (data s ! ri) ! ti) p now
      | Delete \<Rightarrow> ms_delete (loadTasks s) ri ti (tasks (data s ! ri) ! ti) p
      | Break_down \<Rightarrow> ms_break_down (loadTasks s) ri ti (tasks (data s ! ri) ! ti) p now)"
  by (simp add: manageSubtasks_def Let_def)

lemma find_task_Some:
  "find_task rs tid = Some (ri, ti) \<Longrightarrow>
     ri < length rs \<and> ti < length (tasks (rs ! ri)) \<and> task_id (tasks (rs ! ri) ! ti) = tid"
proof (induction rs arbitrary: ri)
  case Nil
  then show ?case by simp
next
  case (Cons r rs)
  show ?case
  proof (cases "findIndex (\<lambda>t. task_id t = tid) (tasks r)")
    case (Some k)
    with Cons.prems findIndex_Some [OF Some] show ?thesis by auto
  next
    case None
    with Cons.prems obtain i where i: "find_task rs tid = Some (i, ti)" "ri = Suc i"
      by (auto split: option.splits)
    with Cons.IH [OF i(1)] show ?thesis by simp
  qed
qed

section \<open>Marking a task done\<close>

text \<open>
  C1. When the request and the task are found, markTaskDone on a task that is already done
  answers \<open>already_done\<close> and leaves the document as it is. On a task that is not done it
  fails exactly when the task has a subtask that is not completed; the answer is then
  \<open>subtasks_incomplete\<close> with the stored completion percentage (0 when none is stored)
  and the number of subtasks that are not completed, and the document is unchanged.
  Otherwise the task is done afterwards.
\<close>

theorem markTaskDone_gate:
  assumes req: "findIndex (\<lambda>r. requestId r = rid) (data s) = Some ri"
      and tsk: "findIndex (\<lambda>t. task_id t = tid) (tasks (data s ! ri)) = Some ti"
  shows "let task = tasks (data s ! ri) ! ti;
             r = fst (markTaskDone s rid tid details);
             s' = snd (markTaskDone s rid tid details)
         in (if task_done task then r = Already_done \<and> data s' = data s
             else (\<not> mark_succeeded r) = has_unfinished_subtask task
                \<and> (if has_unfinished_subtask task
                   then r = Subtasks_incomplete (percentage_or0 (completionPercentage task))
                              (length (filter (\<lambda>st. status st \<noteq> Completed)
                                         (the (subtasks task))))
                        \<and> data s' = data s
                   else task_done (tasks (data s' ! ri) ! ti)))"
  using req tsk findIndex_Some [OF req] findIndex_Some [OF tsk]
  by (auto simp: markTaskDone_def Let_def has_unfinished_subtask_def mark_succeeded_def
        list_all_iff list_ex_iff split: option.splits)

theorem markTaskDone_gate_witness:
  "fst (markTaskDone st_subtasks ''req-1'' ''req-req-1-task-1'' None) = Subtasks_incomplete 50 1
   \<and> data (snd (markTaskDone st_subtasks ''req-1'' ''req-req-1-task-1'' None)) = data st_subtasks"
proof -
  have req: "findIndex (\<lambda>r. requestId r = ''req-1'') (data st_subtasks) = Some 0"
    by code_simp
  have tsk: "findIndex (\<lambda>t. task_id t = ''req-req-1-task-1'') (tasks (data st_subtasks ! 0)) = Some 0"
    by code_simp
  have a: "task_done (tasks (data st_subtasks ! 0) ! 0) = False"
    by code_simp
  have b: "has_unfinished_subtask (tasks (data st_subtasks ! 0) ! 0) = True"
    by code_simp
  have c: "percentage_or0 (completionPercentage (tasks (data st_subtasks ! 0) ! 0)) = 50"
    by code_simp
  have d: "length (filter (\<lambda>st. status st \<noteq> Completed)
             (the (subtasks (tasks (data st_subtasks ! 0) ! 0)))) = 1"
    by code_simp
  from markTaskDone_gate [OF req tsk, of None] show ?thesis
    unfolding Let_def a b c d by simp
qed

section \<open>Selecting the next task\<close>

lemma getNextTask_open:
  assumes "find (\<lambda>r. requestId r = rid) (data s) = Some req" and "\<not> completed req"
  shows "fst (getNextTask s rid) =
           (case find (\<lambda>t. \<not> task_done t) (tasks req) of
              None \<Rightarrow> All_tasks_done
            | Some t \<Rightarrow> Next_task (task_id t) (taskDisplayNumber (task_id t)) (title t)
                          (description t))"
proof (cases "find (\<lambda>t. \<not> task_done t) (tasks req)")
  case None
  then have "list_all task_done (tasks req)"
    by (simp add: find_None_iff list_all_iff)
  with None assms show ?thesis
    by (simp add: getNextTask_def Let_def)
next
  case (Some t)
  with assms show ?thesis
    by (simp add: getNextTask_def Let_def)
qed

text \<open>
  C10. For a request that is found and not completed, getNextTask answers with the first
  task in stored order that is not done (and with \<open>all_tasks_done\<close> when there is none).
  The answer is the same on every document that differs only in approved flags, so a task
  that is done and not approved is passed over like any other done task.
\<close>

theorem getNextTask_selection:
  assumes found: "find (\<lambda>r. requestId r = rid) (data s) = Some req"
      and open_req: "\<not> completed req"
      and variant: "list_all2 same_but_approvals (data s) (data s')"
  shows "fst (getNextTask s rid) =
           (case find (\<lambda>t. \<not> task_done t) (tasks req) of
              None \<Rightarrow> All_tasks_done
            | Some t \<Rightarrow> Next_task (task_id t) (taskDisplayNumber (task_id t)) (title t)
                          (description t))
         \<and> fst (getNextTask s' rid) = fst (getNextTask s rid)"
proof -
  have first: "fst (getNextTask s rid) =
           (case find (\<lambda>t. \<not> task_done t) (tasks req) of
              None \<Rightarrow> All_tasks_done
            | Some t \<Rightarrow> Next_task (task_id t) (taskDisplayNumber (task_id t)) (title t)
                          (description t))"
    by (rule getNextTask_open [OF found open_req])
  have "rel_option same_but_approvals (find (\<lambda>r. requestId r = rid) (data s))
          (find (\<lambda>r. requestId r = rid) (data s'))"
    by (rule find_list_all2 [OF variant]) (simp add: same_but_approvals_def)
  with found obtain req' where found': "find (\<lambda>r. requestId r = rid) (data s') = Some req'"
    and rr: "same_but_approvals req req'"
    by (auto simp: option_rel_Some1)
  from rr have c': "\<not> completed req'"
    and ts: "list_all2 same_but_approved (tasks req) (tasks req')"
    using open_req by (auto simp: same_but_approvals_def)
  have sel: "rel_option same_but_approved (find (\<lambda>t. \<not> task_done t) (tasks req))
          (find (\<lambda>t. \<not> task_done t) (tasks req'))"
    by (rule find_list_all2 [OF ts]) (simp add: same_but_approved_fields)
  have "fst (getNextTask s' rid) =
           (case find (\<lambda>t. \<not> task_done t) (tasks req') of
              None \<Rightarrow> All_tasks_done
            | Some t \<Rightarrow> Next_task (task_id t) (taskDisplayNumber (task_id t)) (title t)
                          (description t))"
    by (rule getNextTask_open [OF found' c'])
  also have "\<dots> = (case find (\<lambda>t. \<not> task_done t) (tasks req) of
              None \<Rightarrow> All_tasks_done
            | Some t \<Rightarrow> Next_task (task_id t) (taskDisplayNumber (task_id t)) (title t)
                          (description t))"
    using sel
    by (cases "find (\<lambda>t. \<not> task_done t) (tasks req)";
        cases "find (\<lambda>t. \<not> task_done t) (tasks req')")
       (auto dest: same_but_approved_fields)
  finally show ?thesis using first by simp
qed

theorem getNextTask_selection_witness:
  "fst (getNextTask st_first_done ''req-1'') =
      Next_task ''req-req-1-task-2'' (Some 2) ''Ship'' ''Release it''
   \<and> fst (getNextTask st_first_approved ''req-1'') =
      Next_task ''req-req-1-task-2'' (Some 2) ''Ship'' ''Release it''"
proof -
  have found: "find (\<lambda>r. requestId r = ''req-1'') (data st_first_done)
                 = Some (data st_first_done ! 0)"
    by code_simp
  have open_req: "\<not> completed (data st_first_done ! 0)"
    by code_simp
  have variant: "list_all2 same_but_approvals (data st_first_done) (data st_first_approved)"
    by code_simp
  have sel: "(case find (\<lambda>t. \<not> task_done t) (tasks (data st_first_done ! 0)) of
              None \<Rightarrow> All_tasks_done
            | Some t \<Rightarrow> Next_task (task_id t) (taskDisplayNumber (task_id t)) (title t)
                          (description t))
             = Next_task ''req-req-1-task-2'' (Some 2) ''Ship'' ''Release it''"
    by code_simp
  from getNextTask_selection [OF found open_req variant] show ?thesis
    unfolding sel by simp
qed


section \<open>Approving a request\<close>

text \<open>
  C5, as the code has it. On a request that is found, approveRequestCompletion answers
  with an error and leaves the document unchanged unless every task is done and
  approved. When they all are, it succeeds and sets the completed flag; invoked again on
  the result it succeeds again and changes nothing further.
\<close>

theorem approveRequestCompletion_gate:
  assumes found: "findIndex (\<lambda>r. requestId r = rid) (data s) = Some ri"
  shows "let req = data s ! ri;
             r = fst (approveRequestCompletion s rid);
             s' = snd (approveRequestCompletion s rid)
         in if list_all (\<lambda>t. task_done t \<and> approved t) (tasks req)
            then r = Request_approved_complete rid
               \<and> data s' = (data s)[ri := req\<lparr>completed := True\<rparr>]
               \<and> fst (approveRequestCompletion s' rid) = Request_approved_complete rid
               \<and> data (snd (approveRequestCompletion s' rid)) = data s'
            else (r = Error ''Not all tasks are done.''
                  \<or> r = Error ''Not all done tasks are approved.'')
               \<and> data s' = data s"
proof -
  let ?req = "data s ! ri"
  from findIndex_Some [OF found] have ri: "ri < length (data s)" and rid: "requestId ?req = rid"
    by auto
  show ?thesis
  proof (cases "list_all (\<lambda>t. task_done t \<and> approved t) (tasks ?req)")
    case False
    then show ?thesis using found
      by (auto simp: approveRequestCompletion_def Let_def)
  next
    case True
    then have alldone: "list_all task_done (tasks ?req)"
      by (auto simp: list_all_iff)
    let ?d' = "(data s)[ri := ?req\<lparr>completed := True\<rparr>]"
    let ?s' = "(loadTasks s)\<lparr>data := ?d'\<rparr>"
    have first: "approveRequestCompletion s rid = (Request_approved_complete rid, ?s')"
      using found True alldone rid by (simp add: approveRequestCompletion_def Let_def)
    have found': "findIndex (\<lambda>r. requestId r = rid) (data ?s') = Some ri"
      using findIndex_update_same [OF found, of "?req\<lparr>completed := True\<rparr>"] rid by simp
    have at: "data ?s' ! ri = ?req\<lparr>completed := True\<rparr>"
      using ri by simp
    have second: "approveRequestCompletion ?s' rid =
        (Request_approved_complete rid, (loadTasks ?s')\<lparr>data := ?d'\<rparr>)"
      using found' at True alldone rid
      by (simp add: approveRequestCompletion_def Let_def)
    show ?thesis
      unfolding Let_def first using True second by simp
  qed
qed

theorem approveRequestCompletion_gate_witness:
  "fst (approveRequestCompletion st_all_approved ''req-1'') = Request_approved_complete ''req-1''
   \<and> data (snd (approveRequestCompletion st_all_approved ''req-1''))
       = (data st_all_approved)[0 := (data st_all_approved ! 0)\<lparr>completed := True\<rparr>]"
proof -
  have found: "findIndex (\<lambda>r. requestId r = ''req-1'') (data st_all_approved) = Some 0"
    by code_simp
  have ok: "list_all (\<lambda>t. task_done t \<and> approved t) (tasks (data st_all_approved ! 0)) = True"
    by code_simp
  from approveRequestCompletion_gate [OF found] show ?thesis
    unfolding Let_def ok by simp
qed

text \<open>
  The claim as stated fails: with every task done and approved, the first invocation
  succeeds and so does the second.
\<close>

theorem approveRequestCompletion_twice:
  "fst (approveRequestCompletion st_all_approved ''req-1'') = Request_approved_complete ''req-1''
   \<and> fst (approveRequestCompletion
            (snd (approveRequestCompletion st_all_approved ''req-1'')) ''req-1'')
       = Request_approved_complete ''req-1''"
  by code_simp

section \<open>Task ids and task numbers\<close>

lemma task_ids_built:
  "map task_id (build_tasks rid k defs) = map (\<lambda>i. task_id_of rid (k + int i)) [0 ..< length defs]"
proof (induction defs arbitrary: k)
  case Nil
  show ?case by simp
next
  case (Cons d ds)
  have "map (\<lambda>i. task_id_of rid (k + int i)) [0 ..< length (d # ds)]
          = task_id_of rid k # map (\<lambda>i. task_id_of rid ((k + 1) + int i)) [0 ..< length ds]"
    by (simp add: upt_rec [of 0] map_Suc_upt [symmetric] add.assoc del: upt_Suc)
  with Cons show ?case
    by (simp add: mk_task_def)
qed

text \<open>
  C7, evaluated. Planning one task on the empty document creates the request \<open>req-1\<close> and
  gives its task the id \<open>req-req-1-task-1\<close>: the template puts \<open>req-\<close> in front of a request
  id that already starts with \<open>req-\<close>. The id is not the request id followed by
  \<open>-task-1\<close>, and no id built by the template is the request id followed by \<open>-task-\<close>
  and the number.
\<close>

theorem requestPlanning_task_id:
  "fst (requestPlanning init_server ''Build a mobile app''
          [(''Build Mobile App'', ''Create the app'')] None)
     = Planned ''req-1'' [mk_task ''req-req-1-task-1'' ''Build Mobile App'' ''Create the app'']
   \<and> ''req-req-1-task-1'' \<noteq> ''req-1'' @ ''-task-'' @ show_int 1
   \<and> (\<forall>rid k. task_id_of rid k \<noteq> rid @ ''-task-'' @ show_int k)"
proof (intro conjI allI)
  show "fst (requestPlanning init_server ''Build a mobile app''
          [(''Build Mobile App'', ''Create the app'')] None)
     = Planned ''req-1'' [mk_task ''req-req-1-task-1'' ''Build Mobile App'' ''Create the app'']"
    by code_simp
next
  show "''req-req-1-task-1'' \<noteq> ''req-1'' @ ''-task-'' @ show_int 1"
    by code_simp
next
  fix rid k
  have "length (task_id_of rid k) \<noteq> length (rid @ ''-task-'' @ show_int k)"
    by (simp add: task_id_of_def)
  then show "task_id_of rid k \<noteq> rid @ ''-task-'' @ show_int k"
    by auto
qed

lemma addTasksToRequest_open:
  assumes "findIndex (\<lambda>r. requestId r = rid) (data s) = Some ri"
      and "\<not> completed (data s ! ri)"
  shows "addTasksToRequest s rid defs =
           (Tasks_added (build_tasks rid (maxTaskNum (tasks (data s ! ri)) + 1) defs),
            (loadTasks s)\<lparr>taskCounter := taskCounter (loadTasks s) + int (length defs),
               data := (data s)[ri := (data s ! ri)\<lparr>tasks := tasks (data s ! ri)
                    @ build_tasks rid (maxTaskNum (tasks (data s ! ri)) + 1) defs\<rparr>]\<rparr>)"
  using assms by (simp add: addTasksToRequest_def Let_def)

lemma taskNumber_le_maxTaskNum: "t \<in> set ts \<Longrightarrow> taskNumber t \<le> maxTaskNum ts"
  by (auto simp: maxTaskNum_def intro: Math_max_ge)

text \<open>
  C6, as the code has it. addTasksToRequest on a request that is found and not completed
  appends its new tasks; their numbers, read back from the ids, are \<open>m + 1, m + 2, \<dots>\<close>
  where \<open>m\<close> is the largest number held by a task of the request at that time, and no
  task of the request holds a number above \<open>m\<close>. The tasks of a freshly planned request
  are numbered \<open>1, 2, \<dots>\<close>. The numbers are read back from the ids the way the code
  reads them, by cutting at the first \<open>-task-\<close>; this needs a request id without the
  letter t, which every id \<open>req-n\<close> made by planning is.
\<close>

theorem addTasksToRequest_numbers:
  assumes found: "findIndex (\<lambda>r. requestId r = rid) (data s) = Some ri"
      and open_req: "\<not> completed (data s ! ri)"
      and plain: "CHR ''t'' \<notin> set rid"
  shows "let existing = tasks (data s ! ri);
             m = maxTaskNum existing;
             newTasks = build_tasks rid (m + 1) defs
         in fst (addTasksToRequest s rid defs) = Tasks_added newTasks
          \<and> tasks (data (snd (addTasksToRequest s rid defs)) ! ri) = existing @ newTasks
          \<and> map taskNumber newTasks = map (\<lambda>i. m + 1 + int i) [0 ..< length defs]
          \<and> list_all (\<lambda>t. taskNumber t \<le> m) existing
          \<and> map taskNumber (tasks (last (data (snd (requestPlanning s orig defs split)))))
              = map (\<lambda>i. 1 + int i) [0 ..< length defs]
          \<and> (\<forall>n. CHR ''t'' \<notin> set (''req-'' @ show_int n))"
proof -
  from findIndex_Some [OF found] have ri: "ri < length (data s)"
    by simp
  have "CHR ''t'' \<notin> set (''req-'' @ show_int (requestCounter (loadTasks s) + 1))"
    using no_t_show_int by simp
  then have planned: "map taskNumber
      (build_tasks (''req-'' @ show_int (requestCounter (loadTasks s) + 1)) 1 defs)
        = map (\<lambda>i. 1 + int i) [0 ..< length defs]"
    by (rule taskNumber_build_tasks)
  have ids: "\<forall>n. CHR ''t'' \<notin> set (''req-'' @ show_int n)"
    using no_t_show_int by simp
  show ?thesis
    unfolding Let_def addTasksToRequest_open [OF found open_req]
    using ri taskNumber_build_tasks [OF plain] planned ids
    by (simp add: list_all_iff taskNumber_le_maxTaskNum requestPlanning_def Let_def)
qed

theorem addTasksToRequest_numbers_witness:
  "map taskNumber (tasks (data (snd (addTasksToRequest st_planned ''req-1''
      [(''Test'', ''Write the tests'')])) ! 0)) = [1, 2, 3]"
proof -
  have found: "findIndex (\<lambda>r. requestId r = ''req-1'') (data st_planned) = Some 0"
    by code_simp
  have open_req: "\<not> completed (data st_planned ! 0)"
    by code_simp
  have plain: "CHR ''t'' \<notin> set ''req-1''"
    by simp
  have m: "maxTaskNum (tasks (data st_planned ! 0)) = 2"
    by code_simp
  have old: "map taskNumber (tasks (data st_planned ! 0)) = [1, 2]"
    by code_simp
  from addTasksToRequest_numbers [OF found open_req plain, of "[(''Test'', ''Write the tests'')]"]
  show ?thesis
    unfolding Let_def m by (simp add: old)
qed

text \<open>
  The claim as stated fails: the planned request holds tasks 1 and 2; after task 2 is
  deleted, the next added task is given the number 2 and the id of the deleted task.
\<close>

theorem task_number_reused:
  "map task_id (tasks (data st_planned ! 0)) = [''req-req-1-task-1'', ''req-req-1-task-2'']
   \<and> map task_id (tasks (data st_deleted ! 0)) = [''req-req-1-task-1'']
   \<and> fst (addTasksToRequest st_deleted ''req-1'' [(''Test'', ''Write the tests'')])
       = Tasks_added [mk_task ''req-req-1-task-2'' ''Test'' ''Write the tests'']"
  by code_simp

section \<open>Completion time stamps\<close>

text \<open>
  C8, evaluated. The create action with a subtask of initial status completed stores the
  subtask as completed with no completedAt, and so does break_down.
\<close>

theorem created_completed_without_completedAt:
  "map (\<lambda>st. (content st, status st, completedAt st))
       (the (subtasks (tasks (data st_subtasks ! 0) ! 0)))
     = [(''Design'', Completed, None), (''Implement'', Pending, None)]
   \<and> map (\<lambda>st. (content st, status st, completedAt st))
       (the (subtasks (tasks (data (step st_planned
          (ManageSubtasks (break_down_params ''req-req-1-task-1''
             [spec_of ''Design'' Completed]) ''2024-01-15T10:30:00Z'')) ! 0) ! 0)))
     = [(''Design'', Completed, None)]"
  by code_simp


section \<open>Duplicate content\<close>

lemma not_unique_iff:
  "(\<not> validateUniqueContent sts c None)
     = (\<exists>st\<in>set sts. toLowerCase (content st) = toLowerCase c)"
  by (auto simp: validateUniqueContent_def list_ex_iff)

lemma not_unique_excluding:
  "st \<in> set sts \<Longrightarrow> toLowerCase (content st) = toLowerCase c \<Longrightarrow> subtask_id st \<noteq> sid
     \<Longrightarrow> \<not> validateUniqueContent sts c (Some sid)"
  by (auto simp: validateUniqueContent_def list_ex_iff)

lemma create_loop_errors_grow:
  "set errs \<subseteq> set (fst (create_loop existing tid now i specs (errs, vs, tc)))"
proof (induction specs arbitrary: i errs vs tc)
  case Nil
  show ?case by simp
next
  case (Cons sp sps)
  show ?case
  proof (cases "validateSubtaskData (spec_content sp) \<noteq> []")
    case True
    with Cons [of "errs @ [ItemInvalid (i + 1) (validateSubtaskData (spec_content sp))]" "Suc i" vs tc]
    show ?thesis by auto
  next
    case valid: False
    show ?thesis
    proof (cases "\<not> validateUniqueContent existing (spec_content sp) None")
      case True
      with valid Cons [of "errs @ [ItemDuplicate (i + 1) (spec_content sp)]" "Suc i" vs tc]
      show ?thesis by auto
    next
      case False
      obtain sid tc' where c: "choose_subtask_id (spec_id sp) tid tc = (sid, tc')"
        by (cases "choose_subtask_id (spec_id sp) tid tc")
      with valid False Cons [of errs "Suc i" "vs @ [mk_subtask sid sp now]" tc']
      show ?thesis by simp
    qed
  qed
qed

lemma create_loop_reports_duplicate:
  assumes "j < length specs"
      and "validateSubtaskData (spec_content (specs ! j)) = []"
      and "\<not> validateUniqueContent existing (spec_content (specs ! j)) None"
  shows "ItemDuplicate (i + j + 1) (spec_content (specs ! j))
           \<in> set (fst (create_loop existing tid now i specs (errs, vs, tc)))"
  using assms
proof (induction specs arbitrary: i j errs vs tc)
  case Nil
  then show ?case by simp
next
  case (Cons sp sps)
  show ?case
  proof (cases j)
    case 0
    with Cons.prems
      create_loop_errors_grow [of "errs @ [ItemDuplicate (i + 1) (spec_content sp)]"
         existing tid now "Suc i" sps vs tc]
    show ?thesis by auto
  next
    case (Suc k)
    with Cons.prems have k: "k < length sps"
      "validateSubtaskData (spec_content (sps ! k)) = []"
      "\<not> validateUniqueContent existing (spec_content (sps ! k)) None"
      by auto
    have step: "\<And>errs' vs' tc'. ItemDuplicate (i + j + 1) (spec_content ((sp # sps) ! j))
           \<in> set (fst (create_loop existing tid now (Suc i) sps (errs', vs', tc')))"
      using Cons.IH [OF k, of "Suc i"] Suc by simp
    show ?thesis
    proof (cases "choose_subtask_id (spec_id sp) tid tc")
      case (Pair sid tc')
      then show ?thesis using step by simp
    qed
  qed
qed

lemma create_duplicate_rejected:
  assumes target: "find_task (data s) (taskId p) = Some (ri, ti)"
      and act: "action p = Create" and specs: "p_subtasks p = Some specs"
      and j: "j < length specs"
      and valid: "validateSubtaskData (spec_content (specs ! j)) = []"
      and sib: "sib \<in> set (existing_subtasks (tasks (data s ! ri) ! ti))"
      and same: "toLowerCase (content sib) = toLowerCase (spec_content (specs ! j))"
  shows "(\<exists>errs. fst (manageSubtasks s p now) = ErrorCode VALIDATION_FAILED errs
            \<and> ItemDuplicate (j + 1) (spec_content (specs ! j)) \<in> set errs)
         \<and> data (snd (manageSubtasks s p now)) = data s"
proof -
  let ?task = "tasks (data s ! ri) ! ti"
  let ?res = "create_loop (existing_subtasks ?task) (taskId p) now 0 specs
                ([], [], taskCounter (loadTasks s))"
  from sib same have nu: "\<not> validateUniqueContent (existing_subtasks ?task)
                              (spec_content (specs ! j)) None"
    unfolding not_unique_iff by blast
  from create_loop_reports_duplicate [OF j valid nu, of 0 "taskId p" now "[]" "[]"
         "taskCounter (loadTasks s)"]
  have mem: "ItemDuplicate (j + 1) (spec_content (specs ! j)) \<in> set (fst ?res)"
    by simp
  obtain errs vs tc where res: "?res = (errs, vs, tc)"
    by (cases ?res)
  with mem have "errs \<noteq> []" and "ItemDuplicate (j + 1) (spec_content (specs ! j)) \<in> set errs"
    by auto
  moreover from j have "specs \<noteq> []" by auto
  ultimately show ?thesis
    using act specs res
    by (simp add: manageSubtasks_found [OF target] ms_create_def)
qed

lemma update_duplicate_rejected:
  assumes target: "find_task (data s) (taskId p) = Some (ri, ti)"
      and act: "action p = Update" and sid: "subtaskId p = Some sid" "sid \<noteq> []"
      and u: "updates p = Some u" "upd_content u = Some c"
      and valid: "validateSubtaskData c = []"
      and sib: "sib \<in> set (existing_subtasks (tasks (data s ! ri) ! ti))"
      and same: "toLowerCase (content sib) = toLowerCase c"
      and other: "subtask_id sib \<noteq> sid"
      and present: "list_ex (\<lambda>st. subtask_id st = sid) (existing_subtasks (tasks (data s ! ri) ! ti))"
  shows "(\<exists>errs. fst (manageSubtasks s p now) = ErrorCode UPDATE_VALIDATION_FAILED errs
            \<and> ContentExists c \<in> set errs)
         \<and> data (snd (manageSubtasks s p now)) = data s"
proof -
  let ?task = "tasks (data s ! ri) ! ti"
  from sib obtain sts where sts: "subtasks ?task = Some sts" "sib \<in> set sts"
    by (cases "subtasks ?task") (auto simp: existing_subtasks_def)
  with present have "\<exists>st\<in>set sts. subtask_id st = sid"
    by (simp add: existing_subtasks_def list_ex_iff)
  then obtain k where k: "findIndex (\<lambda>st. subtask_id st = sid) sts = Some k"
    using findIndex_None [of "\<lambda>st. subtask_id st = sid" sts] by (cases "findIndex (\<lambda>st. subtask_id st = sid) sts") auto
  from valid have c: "c \<noteq> []"
    by (auto simp: validateSubtaskData_def)
  have ce: "content_errors sts (Some c) sid = [ContentExists c]"
    using c valid not_unique_excluding [OF sts(2) same other]
    by (simp add: content_errors_def truthy_def)
  show ?thesis
    using act sid u sts(1) k c ce
    by (simp add: manageSubtasks_found [OF target] ms_update_def truthy_def Let_def)
qed

lemma unique_excluding_iff:
  "validateUniqueContent sts c (Some sid)
     = (\<not> list_ex (\<lambda>st. toLowerCase (content st) = toLowerCase c \<and> subtask_id st \<noteq> sid) sts)"
  by (simp add: validateUniqueContent_def)

lemma update_content_only:
  assumes target: "find_task (data s) (taskId p) = Some (ri, ti)"
      and act: "action p = Update" and sid: "subtaskId p = Some sid" "sid \<noteq> []"
      and u: "updates p = Some u" "upd_content u = Some c" "upd_status u = None"
      and valid: "validateSubtaskData c = []"
      and sts: "subtasks (tasks (data s ! ri) ! ti) = Some sts"
      and idx: "findIndex (\<lambda>st. subtask_id st = sid) sts = Some k"
      and free: "\<not> list_ex (\<lambda>st. toLowerCase (content st) = toLowerCase c
                              \<and> subtask_id st \<noteq> sid) sts"
  shows "(\<exists>pct. fst (manageSubtasks s p now) = Subtask_updated ((sts ! k)\<lparr>content := c\<rparr>) pct)
         \<and> subtasks (tasks (data (snd (manageSubtasks s p now)) ! ri) ! ti)
             = Some (sts[k := (sts ! k)\<lparr>content := c\<rparr>])"
proof -
  from find_task_Some [OF target] have ri: "ri < length (data s)"
    and ti: "ti < length (tasks (data s ! ri))" by auto
  from valid have c: "c \<noteq> []"
    by (auto simp: validateSubtaskData_def)
  have ce: "content_errors sts (Some c) sid = []"
    using c valid free by (simp add: content_errors_def truthy_def unique_excluding_iff)
  have se: "status_errors (sts ! k) None = []"
    by (simp add: status_errors_def)
  show ?thesis
    using act sid u sts idx c ce se ri ti
    by (simp add: manageSubtasks_found [OF target] ms_update_def truthy_def Let_def
          apply_status_def apply_content_def)
qed




section \<open>Status transitions\<close>

lemma validateStatusTransition_table:
  "validateStatusTransition a b = ((a, b) \<in> transition_table)"
  by (cases a; cases b) (simp_all add: validateStatusTransition_def transition_table_def)

lemma apply_status_fields:
  "status (apply_status (Some t) now st) = t
   \<and> completedAt (apply_status (Some t) now st) =
       (if t = Completed \<and> status st \<noteq> Completed then Some now
        else if t \<noteq> Completed \<and> status st = Completed then None
        else completedAt st)
   \<and> subtask_id (apply_status (Some t) now st) = subtask_id st
   \<and> content (apply_status (Some t) now st) = content st"
  by (simp add: apply_status_def Let_def)

lemma update_status_only:
  assumes target: "find_task (data s) (taskId p) = Some (ri, ti)"
      and sts: "subtasks (tasks (data s ! ri) ! ti) = Some sts"
      and idx: "findIndex (\<lambda>st. subtask_id st = sid) sts = Some k"
      and sid: "subtaskId p = Some sid" "sid \<noteq> []"
      and act: "action p = Update"
      and u: "updates p = Some u" "upd_status u = Some t"
  shows "(if (status (sts ! k), t) \<in> transition_table
             \<and> content_errors sts (upd_content u) sid = []
          then (\<exists>st' pct. fst (manageSubtasks s p now) = Subtask_updated st' pct
                     \<and> status st' = t
                     \<and> completedAt st' = (if t = Completed then Some now
                                           else if status (sts ! k) = Completed then None
                                           else completedAt (sts ! k))
                     \<and> subtasks (tasks (data (snd (manageSubtasks s p now)) ! ri) ! ti)
                         = Some (sts[k := st']))
          else (\<exists>errs. fst (manageSubtasks s p now) = ErrorCode UPDATE_VALIDATION_FAILED errs
                  \<and> set (content_errors sts (upd_content u) sid) \<subseteq> set errs
                  \<and> ((status (sts ! k), t) \<notin> transition_table
                       \<longrightarrow> BadTransition (status (sts ! k)) t \<in> set errs))
               \<and> data (snd (manageSubtasks s p now)) = data s)"
proof -
  from find_task_Some [OF target] have ri: "ri < length (data s)"
    and ti: "ti < length (tasks (data s ! ri))" by auto
  have se: "status_errors (sts ! k) (Some t)
              = (if (status (sts ! k), t) \<in> transition_table then []
                 else [BadTransition (status (sts ! k)) t])"
    by (simp add: status_errors_def validateStatusTransition_table)
  show ?thesis
  proof (cases "(status (sts ! k), t) \<in> transition_table
                  \<and> content_errors sts (upd_content u) sid = []")
    case False
    then have "content_errors sts (upd_content u) sid @ status_errors (sts ! k) (Some t) \<noteq> []"
      by (auto simp: se)
    with False show ?thesis
      using act sid u sts idx se
      by (auto simp: manageSubtasks_found [OF target] ms_update_def truthy_def Let_def)
  next
    case True
    then have tb: "(status (sts ! k), t) \<in> transition_table"
      and ce: "content_errors sts (upd_content u) sid = []" by simp_all
    from tb have tc: "t = Completed \<longrightarrow> status (sts ! k) \<noteq> Completed"
      by (auto simp: transition_table_def)
    have "\<exists>st' pct. fst (manageSubtasks s p now) = Subtask_updated st' pct
                     \<and> status st' = t
                     \<and> completedAt st' = (if t = Completed then Some now
                                           else if status (sts ! k) = Completed then None
                                           else completedAt (sts ! k))
                     \<and> subtasks (tasks (data (snd (manageSubtasks s p now)) ! ri) ! ti)
                         = Some (sts[k := st'])"
      using act sid u sts idx se tb ce ri ti tc
      by (auto simp: manageSubtasks_found [OF target] ms_update_def truthy_def Let_def
            apply_status_fields apply_content_def)
    with True show ?thesis by simp
  qed
qed

lemma complete_action:
  assumes target: "find_task (data s) (taskId p) = Some (ri, ti)"
      and sts: "subtasks (tasks (data s ! ri) ! ti) = Some sts"
      and idx: "findIndex (\<lambda>st. subtask_id st = sid) sts = Some k"
      and sid: "subtaskId p = Some sid" "sid \<noteq> []"
      and act: "action p = Complete"
  shows "(if (status (sts ! k), Completed) \<in> transition_table
          then (\<exists>pct n. fst (manageSubtasks s p now)
                    = Subtask_completed ((sts ! k)\<lparr>status := Completed, completedAt := Some now\<rparr>) pct n)
               \<and> subtasks (tasks (data (snd (manageSubtasks s p now)) ! ri) ! ti)
                   = Some (sts[k := (sts ! k)\<lparr>status := Completed, completedAt := Some now\<rparr>])
          else (fst (manageSubtasks s p now) = ErrorCode ALREADY_COMPLETED []
                \<or> fst (manageSubtasks s p now) = ErrorCode INVALID_TRANSITION [])
               \<and> data (snd (manageSubtasks s p now)) = data s)"
proof -
  from find_task_Some [OF target] have ri: "ri < length (data s)"
    and ti: "ti < length (tasks (data s ! ri))" by auto
  show ?thesis
  proof (cases "(status (sts ! k), Completed) \<in> transition_table")
    case False
    then show ?thesis
      using act sid sts idx
      by (simp add: manageSubtasks_found [OF target] ms_complete_def truthy_def Let_def
            validateStatusTransition_table)
  next
    case True
    then have "status (sts ! k) \<noteq> Completed"
      by (auto simp: transition_table_def)
    with True show ?thesis
      using act sid sts idx ri ti
      by (simp add: manageSubtasks_found [OF target] ms_complete_def truthy_def Let_def
            validateStatusTransition_table)
  qed
qed




section \<open>The done gate as an invariant\<close>

lemma list_all_update:
  "list_all P xs \<Longrightarrow> P y \<Longrightarrow> list_all P (xs[i := y])"
  by (induction xs arbitrary: i) (auto split: nat.splits)

lemma inv_put:
  assumes "list_all (\<lambda>r. list_all gate_ok (tasks r)) d" and "gate_ok t'"
  shows "list_all (\<lambda>r. list_all gate_ok (tasks r)) (d[ri := (d ! ri)\<lparr>tasks := (tasks (d ! ri))[ti := t']\<rparr>])"
proof (cases "ri < length d")
  case False
  then have "d[ri := (d ! ri)\<lparr>tasks := (tasks (d ! ri))[ti := t']\<rparr>] = d"
    by (intro list_update_beyond) simp
  with assms(1) show ?thesis by (simp only:)
next
  case True
  with assms(1) have "list_all gate_ok (tasks (d ! ri))"
    by (simp add: list_all_length)
  then have "list_all gate_ok ((tasks (d ! ri))[ti := t'])"
    using assms(2) by (rule list_all_update)
  with assms(1) show ?thesis
    by (intro list_all_update) simp_all
qed

lemma done_invariant_put_task:
  "done_invariant s \<Longrightarrow> gate_ok t' \<Longrightarrow> done_invariant (put_task s ri ti t')"
  unfolding done_invariant_def data_put_task by (rule inv_put)

lemma build_tasks_gate_ok: "list_all gate_ok (build_tasks rid k defs)"
  by (induction defs arbitrary: k) (simp_all add: gate_ok_def mk_task_def)

lemma target_gate_ok:
  assumes "done_invariant s" and "ri < length (data s)" and "ti < length (tasks (data s ! ri))"
  shows "gate_ok (tasks (data s ! ri) ! ti)"
  using assms by (simp add: done_invariant_def list_all_length)

lemma inv_requestPlanning:
  "done_invariant s \<Longrightarrow> done_invariant (snd (requestPlanning s orig defs split))"
  by (simp add: requestPlanning_def Let_def done_invariant_def build_tasks_gate_ok)

lemma inv_getNextTask: "done_invariant s \<Longrightarrow> done_invariant (snd (getNextTask s rid))"
  by (auto simp: getNextTask_def Let_def done_invariant_def split: option.splits)

lemma inv_openTaskDetails: "done_invariant s \<Longrightarrow> done_invariant (snd (openTaskDetails s tid))"
  by (auto simp: openTaskDetails_def Let_def done_invariant_def split: option.splits)

lemma inv_listRequests: "done_invariant s \<Longrightarrow> done_invariant (snd (listRequests s))"
  by (simp add: listRequests_def Let_def done_invariant_def)

lemma inv_clearAllTasks: "done_invariant (snd (clearAllTasks s))"
  by (simp add: clearAllTasks_def Let_def done_invariant_def)

lemma inv_loadTasks: "done_invariant (loadTasks s) = done_invariant s"
  by (simp add: done_invariant_def)

lemma inv_markTaskDone:
  assumes "done_invariant s"
  shows "done_invariant (snd (markTaskDone s rid tid details))"
proof -
  have "\<And>t c. \<not> has_unfinished_subtask t \<Longrightarrow> gate_ok (t\<lparr>task_done := True, completedDetails := c\<rparr>)"
    by (simp add: gate_ok_def has_unfinished_subtask_def)
  moreover have "\<And>t sts. subtasks t = Some sts \<Longrightarrow>
      \<not> (sts \<noteq> [] \<and> \<not> list_all (\<lambda>st. status st = Completed) sts) \<Longrightarrow> \<not> has_unfinished_subtask t"
    by (auto simp: has_unfinished_subtask_def list_all_iff list_ex_iff)
  moreover have "\<And>t. subtasks t = None \<Longrightarrow> \<not> has_unfinished_subtask t"
    by (simp add: has_unfinished_subtask_def)
  ultimately show ?thesis
    using assms
    by (auto simp: markTaskDone_def Let_def inv_loadTasks split: option.splits
          intro!: done_invariant_put_task)
qed


lemma gate_ok_same_done:
  "gate_ok t \<Longrightarrow> task_done t' = task_done t \<Longrightarrow> subtasks t' = subtasks t \<Longrightarrow> gate_ok t'"
  by (simp add: gate_ok_def has_unfinished_subtask_def)

lemma inv_approveTaskCompletion:
  assumes "done_invariant s"
  shows "done_invariant (snd (approveTaskCompletion s rid tid))"
proof (cases "findIndex (\<lambda>r. requestId r = rid) (data s)")
  case None
  with assms show ?thesis
    by (simp add: approveTaskCompletion_def Let_def inv_loadTasks)
next
  case (Some ri)
  show ?thesis
  proof (cases "findIndex (\<lambda>t. task_id t = tid) (tasks (data s ! ri))")
    case None
    with Some assms show ?thesis
      by (simp add: approveTaskCompletion_def Let_def inv_loadTasks)
  next
    case ti: (Some ti)
    from findIndex_Some [OF Some] findIndex_Some [OF ti]
    have "gate_ok (tasks (data s ! ri) ! ti)"
      by (intro target_gate_ok [OF assms]) simp_all
    then have "gate_ok ((tasks (data s ! ri) ! ti)\<lparr>approved := True\<rparr>)"
      by (rule gate_ok_same_done) simp_all
    with Some ti assms show ?thesis
      by (simp add: approveTaskCompletion_def Let_def inv_loadTasks done_invariant_put_task)
  qed
qed

lemma inv_updateTask:
  assumes "done_invariant s"
  shows "done_invariant (snd (updateTask s rid tid ttl desc))"
proof (cases "findIndex (\<lambda>r. requestId r = rid) (data s)")
  case None
  with assms show ?thesis
    by (simp add: updateTask_def Let_def inv_loadTasks)
next
  case (Some ri)
  show ?thesis
  proof (cases "findIndex (\<lambda>t. task_id t = tid) (tasks (data s ! ri))")
    case None
    with Some assms show ?thesis
      by (simp add: updateTask_def Let_def inv_loadTasks)
  next
    case ti: (Some ti)
    from findIndex_Some [OF Some] findIndex_Some [OF ti]
    have ok: "gate_ok (tasks (data s ! ri) ! ti)"
      by (intro target_gate_ok [OF assms]) simp_all
    have "\<And>t'. task_done t' = task_done (tasks (data s ! ri) ! ti) \<Longrightarrow>
               subtasks t' = subtasks (tasks (data s ! ri) ! ti) \<Longrightarrow> gate_ok t'"
      using ok by (rule gate_ok_same_done)
    with Some ti assms show ?thesis
      by (simp add: updateTask_def Let_def inv_loadTasks done_invariant_put_task)
  qed
qed

lemma inv_approveRequestCompletion:
  assumes "done_invariant s"
  shows "done_invariant (snd (approveRequestCompletion s rid))"
proof (cases "findIndex (\<lambda>r. requestId r = rid) (data s)")
  case None
  with assms show ?thesis
    by (simp add: approveRequestCompletion_def Let_def inv_loadTasks)
next
  case (Some ri)
  from findIndex_Some [OF Some] have ri: "ri < length (data s)" by simp
  with assms have "list_all gate_ok (tasks (data s ! ri))"
    by (simp add: done_invariant_def list_all_length)
  with assms have "list_all (\<lambda>r. list_all gate_ok (tasks r))
                     ((data s)[ri := (data s ! ri)\<lparr>completed := True\<rparr>])"
    unfolding done_invariant_def by (intro list_all_update) simp_all
  with Some assms show ?thesis
    by (simp add: approveRequestCompletion_def Let_def inv_loadTasks done_invariant_def)
qed

lemma inv_addTasksToRequest:
  assumes "done_invariant s"
  shows "done_invariant (snd (addTasksToRequest s rid defs))"
proof (cases "findIndex (\<lambda>r. requestId r = rid) (data s)")
  case None
  with assms show ?thesis
    by (simp add: addTasksToRequest_def Let_def inv_loadTasks)
next
  case (Some ri)
  from findIndex_Some [OF Some] have ri: "ri < length (data s)" by simp
  with assms have "list_all gate_ok (tasks (data s ! ri))"
    by (simp add: done_invariant_def list_all_length)
  with assms have "\<And>k. list_all (\<lambda>r. list_all gate_ok (tasks r))
       ((data s)[ri := (data s ! ri)\<lparr>tasks := tasks (data s ! ri) @ build_tasks rid k defs\<rparr>])"
    unfolding done_invariant_def by (intro list_all_update) (simp_all add: build_tasks_gate_ok)
  with Some assms show ?thesis
    by (simp add: addTasksToRequest_def Let_def inv_loadTasks done_invariant_def)
qed

lemma inv_deleteTask:
  assumes "done_invariant s"
  shows "done_invariant (snd (deleteTask s rid tid))"
proof (cases "findIndex (\<lambda>r. requestId r = rid) (data s)")
  case None
  with assms show ?thesis
    by (simp add: deleteTask_def Let_def inv_loadTasks)
next
  case (Some ri)
  from findIndex_Some [OF Some] have ri: "ri < length (data s)" by simp
  with assms have all: "list_all gate_ok (tasks (data s ! ri))"
    by (simp add: done_invariant_def list_all_length)
  have "\<And>k. list_all gate_ok (take k (tasks (data s ! ri)) @ drop (Suc k) (tasks (data s ! ri)))"
    using all by (auto simp: list_all_iff dest: in_set_takeD in_set_dropD)
  with assms have "\<And>k. list_all (\<lambda>r. list_all gate_ok (tasks r))
       ((data s)[ri := (data s ! ri)\<lparr>tasks := take k (tasks (data s ! ri))
                                           @ drop (Suc k) (tasks (data s ! ri))\<rparr>])"
    unfolding done_invariant_def by (intro list_all_update) simp_all
  with Some assms show ?thesis
    by (auto simp: deleteTask_def Let_def inv_loadTasks done_invariant_def split: option.splits)
qed


lemma ms_create_outcome: "ms_outcome s ri ti t (ms_create s ri ti t p now)"
  unfolding ms_create_def Let_def ms_outcome_def
  by (auto split: option.splits prod.splits
        simp: subtask_success_def recomputed_def put_task_def)

lemma ms_break_down_outcome: "ms_outcome s ri ti t (ms_break_down s ri ti t p now)"
  unfolding ms_break_down_def Let_def ms_outcome_def
  by (auto split: option.splits prod.splits
        simp: subtask_success_def recomputed_def put_task_def)

lemma ms_update_outcome: "ms_outcome s ri ti t (ms_update s ri ti t p now)"
  unfolding ms_update_def Let_def ms_outcome_def
  by (auto split: option.splits prod.splits
        simp: subtask_success_def recomputed_def)

lemma ms_complete_outcome: "ms_outcome s ri ti t (ms_complete s ri ti t p now)"
  unfolding ms_complete_def Let_def ms_outcome_def
  by (auto split: option.splits prod.splits
        simp: subtask_success_def recomputed_def)

lemma ms_delete_outcome: "ms_outcome s ri ti t (ms_delete s ri ti t p)"
  unfolding ms_delete_def Let_def ms_outcome_def
  by (auto split: option.splits prod.splits
        simp: subtask_success_def recomputed_def)

lemma all_completed:
  assumes "task_done t" and "gate_ok t" and "subtasks t = Some sts" and "k < length sts"
  shows "status (sts ! k) = Completed"
proof -
  from assms(4) have "sts \<noteq> []" by auto
  with assms(1-3) have "\<not> list_ex (\<lambda>st. status st \<noteq> Completed) sts"
    by (simp add: gate_ok_def has_unfinished_subtask_def)
  with assms(4) show ?thesis
    by (simp add: list_ex_iff)
qed

lemma ms_complete_done:
  assumes "task_done t" and "gate_ok t"
  shows "data (snd (ms_complete s ri ti t p now)) = data s"
proof -
  have "\<forall>sts k. subtasks t = Some sts \<longrightarrow>
          findIndex (\<lambda>st. subtask_id st = the (subtaskId p)) sts = Some k \<longrightarrow>
          status (sts ! k) = Completed"
    using all_completed [OF assms] findIndex_Some by blast
  then show ?thesis
    by (auto simp: ms_complete_def Let_def split: option.splits)
qed

lemma ms_delete_done:
  assumes "task_done t" and "gate_ok t"
  shows "data (snd (ms_delete s ri ti t p)) = data s"
proof -
  have "\<forall>sts k. subtasks t = Some sts \<longrightarrow>
          findIndex (\<lambda>st. subtask_id st = the (subtaskId p)) sts = Some k \<longrightarrow>
          status (sts ! k) = Completed"
    using all_completed [OF assms] findIndex_Some by blast
  then show ?thesis
    by (auto simp: ms_delete_def Let_def split: option.splits)
qed


lemma schema_keeps:
  "ManageSubtasksSchema raw = Some d \<Longrightarrow> taskId d = taskId raw \<and> action d = action raw"
  by (auto simp: ManageSubtasksSchema_def Let_def split: option.splits if_splits)

lemma ms_outcome_loadTasks:
  "ms_outcome (loadTasks s) ri ti t res = ms_outcome s ri ti t res"
  by (simp add: ms_outcome_def)

lemma manageSubtasks_outcome:
  assumes "find_task (data s) (taskId p) = Some (ri, ti)"
  shows "ms_outcome s ri ti (tasks (data s ! ri) ! ti) (manageSubtasks s p now)"
  unfolding manageSubtasks_found [OF assms]
  using ms_create_outcome [of "loadTasks s"] ms_update_outcome [of "loadTasks s"]
    ms_complete_outcome [of "loadTasks s"] ms_delete_outcome [of "loadTasks s"]
    ms_break_down_outcome [of "loadTasks s"]
  by (cases "action p") (simp_all add: ms_outcome_loadTasks)

lemma manageSubtasks_not_found:
  "find_task (data s) (taskId p) = None \<Longrightarrow> data (snd (manageSubtasks s p now)) = data s"
  by (simp add: manageSubtasks_def Let_def)

lemma inv_manageSubtasks:
  assumes inv: "done_invariant s"
      and gate: "\<not> ((action p = Create \<or> action p = Update \<or> action p = Break_down)
                  \<and> (case find_task (data s) (taskId p) of
                        None \<Rightarrow> False
                      | Some (ri, ti) \<Rightarrow> task_done (tasks (data s ! ri) ! ti)))"
  shows "done_invariant (snd (manageSubtasks s p now))"
proof (cases "find_task (data s) (taskId p)")
  case None
  from manageSubtasks_not_found [OF None] inv show ?thesis
    by (simp add: done_invariant_def)
next
  case (Some loc)
  obtain ri ti where loc: "loc = (ri, ti)" by (cases loc)
  with Some have target: "find_task (data s) (taskId p) = Some (ri, ti)" by simp
  let ?t = "tasks (data s ! ri) ! ti"
  from find_task_Some [OF target] have ok: "gate_ok ?t"
    by (intro target_gate_ok [OF inv]) simp_all
  show ?thesis
  proof (cases "task_done ?t")
    case True
    with gate target have "action p = Complete \<or> action p = Delete"
      by (cases "action p") simp_all
    then have "data (snd (manageSubtasks s p now)) = data s"
      using ms_complete_done [OF True ok, of "loadTasks s"] ms_delete_done [OF True ok, of "loadTasks s"]
      by (auto simp: manageSubtasks_found [OF target])
    with inv show ?thesis by (simp add: done_invariant_def)
  next
    case False
    from manageSubtasks_outcome [OF target, of now]
    consider "data (snd (manageSubtasks s p now)) = data s"
      | t' where "data (snd (manageSubtasks s p now)) = data (put_task s ri ti t')"
          "recomputed ?t t'"
      by (auto simp: ms_outcome_def split: if_splits)
    then show ?thesis
    proof cases
      case 1
      with inv show ?thesis by (simp add: done_invariant_def)
    next
      case 2
      from 2(2) False have "gate_ok t'"
        by (simp add: recomputed_def gate_ok_def)
      from done_invariant_put_task [OF inv this, of ri ti] 2(1) show ?thesis
        by (simp add: done_invariant_def)
    qed
  qed
qed

lemma inv_step:
  assumes "done_invariant s" and "\<not> mutates_done_task s opn"
  shows "done_invariant (step s opn)"
proof (cases opn)
  case (ManageSubtasks p now)
  show ?thesis
  proof (cases "ManageSubtasksSchema p")
    case None
    with ManageSubtasks assms(1) show ?thesis
      by (simp add: step_def call_manage_subtasks_def)
  next
    case (Some d)
    from schema_keeps [OF Some] assms(2) ManageSubtasks
    have "\<not> ((action d = Create \<or> action d = Update \<or> action d = Break_down)
                  \<and> (case find_task (data s) (taskId d) of
                        None \<Rightarrow> False
                      | Some (ri, ti) \<Rightarrow> task_done (tasks (data s ! ri) ! ti)))"
      by (simp add: mutates_done_task_def)
    from inv_manageSubtasks [OF assms(1) this] Some ManageSubtasks show ?thesis
      by (simp add: step_def call_manage_subtasks_def)
  qed
qed (use assms(1) in \<open>simp_all add: step_def inv_requestPlanning inv_getNextTask
       inv_markTaskDone inv_approveTaskCompletion inv_approveRequestCompletion
       inv_openTaskDetails inv_listRequests inv_addTasksToRequest inv_updateTask
       inv_deleteTask inv_clearAllTasks\<close>)

lemma inv_run_all:
  "done_invariant s \<Longrightarrow> gated s ops \<Longrightarrow> done_invariant (run_all s ops)"
proof (induction ops arbitrary: s)
  case Nil
  then show ?case by (simp add: run_all_def)
next
  case (Cons opn ops)
  from Cons.prems have "done_invariant (step s opn)" and "gated (step s opn) ops"
    by (simp_all add: inv_step)
  from Cons.IH [OF this] show ?case
    by (simp add: run_all_def)
qed

lemma inv_init: "done_invariant init_server"
  by (simp add: done_invariant_def init_server_def)




section \<open>The completion percentage\<close>

text \<open>
  After every successful subtask action the percentage stored in the target task is
  calculateCompletionPercentage of the subtasks stored with it.
\<close>

lemma percentage_recomputed:
  assumes target: "find_task (data s) (taskId p) = Some (ri, ti)"
      and success: "subtask_success (fst (manageSubtasks s p now))"
  shows "\<exists>sts. subtasks (tasks (data (snd (manageSubtasks s p now)) ! ri) ! ti) = Some sts
           \<and> completionPercentage (tasks (data (snd (manageSubtasks s p now)) ! ri) ! ti)
               = Some (calculateCompletionPercentage sts)"
proof -
  from manageSubtasks_outcome [OF target, of now] success
  obtain t' where t': "data (snd (manageSubtasks s p now)) = data (put_task s ri ti t')"
    "recomputed (tasks (data s ! ri) ! ti) t'"
    by (auto simp: ms_outcome_def)
  from find_task_Some [OF target] t'(1)
  have "tasks (data (snd (manageSubtasks s p now)) ! ri) ! ti = t'"
    by simp
  with t'(2) show ?thesis
    by (simp add: recomputed_def)
qed

text \<open>
  C3, evaluated. calculateCompletionPercentage computes
  \<^verbatim>\<open>Math.round((completedCount / subtasks.length) * 100)\<close> in double precision. With 23 of
  40 subtasks completed the quotient is the double next to 0.575 and the product is
  57.49999999999999, which rounds to 57, while 100 \<times> 23 / 40 = 57.5 rounds to 58.
\<close>

theorem completionPercentage_23_of_40:
  "(case call_manage_subtasks st_planned
            (create_params ''req-req-1-task-1'' forty_specs) ''2024-01-15T10:30:00Z'' of
      (r, s') \<Rightarrow> (completionPercentage (tasks (data s' ! 0) ! 0),
                  map status (the (subtasks (tasks (data s' ! 0) ! 0)))))
     = (Some 57, replicate 23 Completed @ replicate 17 Pending)
   \<and> Math_round (100 * 23 / 40) = 58"
  by code_simp

end
